theory Spec2Isabelle
  imports Main "HOL-Library.AList"
begin

section \<open>The converter of typedoc (src/lib/converter/converter.ts)\<close>

text \<open>
  A shallow embedding of the class \<open>Converter\<close>. Objects of the program are modelled by
  their identity (a natural number) and a store that maps an identity to the object's
  fields, so that two references to one object see the same fields. Everything the class
  calls but does not define (the TypeScript compiler, the path utilities, the comment
  parser, the event dispatcher of the component base class and the plugged-in converter
  components) is a field of the records \<open>env\<close> and \<open>component\<close>: a parameter of the model.
\<close>

subsection \<open>Values of the language: strings and arrays\<close>

text \<open>
  A string is the list of its code units; only code units below 256 are represented.
  \<open>\w\<close> of a regular expression is \<open>[A-Za-z0-9_]\<close>; \<open>\s\<close> is, below 256, the code units
  9 to 13, 32 and 160.
\<close>

definition isWordChar :: "char \<Rightarrow> bool" where
  "isWordChar c =
     (let n = (of_char c :: nat)
      in (48 \<le> n \<and> n \<le> 57) \<or> (65 \<le> n \<and> n \<le> 90) \<or> n = 95 \<or> (97 \<le> n \<and> n \<le> 122))"

definition isSpaceChar :: "char \<Rightarrow> bool" where
  "isSpaceChar c =
     (let n = (of_char c :: nat)
      in (9 \<le> n \<and> n \<le> 13) \<or> n = 32 \<or> n = 160)"

text \<open>\<open>String.prototype.toLowerCase\<close> on code units below 256.\<close>

definition toLowerChar :: "char \<Rightarrow> char" where
  "toLowerChar c =
     (let n = (of_char c :: nat)
      in if (65 \<le> n \<and> n \<le> 90) \<or> (192 \<le> n \<and> n \<le> 222 \<and> n \<noteq> 215)
         then char_of (n + 32) else c)"

definition toLowerCase :: "string \<Rightarrow> string" where
  "toLowerCase s = map toLowerChar s"

definition startsWith :: "string \<Rightarrow> string \<Rightarrow> bool" where
  "startsWith s pat = (take (length pat) s = pat)"

text \<open>\<open>String.prototype.indexOf\<close>: the first index where the pattern occurs, or -1.\<close>

fun strIndexOf :: "string \<Rightarrow> string \<Rightarrow> int" where
  "strIndexOf [] pat = (if pat = [] then 0 else - 1)"
| "strIndexOf (c # cs) pat =
     (if startsWith (c # cs) pat then 0
      else (let i = strIndexOf cs pat in if i = - 1 then - 1 else i + 1))"

text \<open>\<open>Array.prototype.indexOf\<close> (strict equality: identity for objects), or -1.\<close>

fun indexOf :: "'a list \<Rightarrow> 'a \<Rightarrow> int" where
  "indexOf [] x = - 1"
| "indexOf (y # ys) x =
     (if y = x then 0
      else (let i = indexOf ys x in if i = - 1 then - 1 else i + 1))"

text \<open>\<open>xs.splice(i, 1)\<close> for an index \<open>i \<ge> 0\<close>: the array without its element at \<open>i\<close>.\<close>

definition splice1 :: "int \<Rightarrow> 'a list \<Rightarrow> 'a list" where
  "splice1 i xs = take (nat i) xs @ drop (Suc (nat i)) xs"

text \<open>
  \<open>Array.prototype.sort(cmp)\<close>, as ECMAScript specifies it since its 2019 edition: the
  result is ordered by the comparison function and stable, that is, elements the function
  does not order (\<open>cmp a b = 0\<close>) keep the order they had. The model is insertion from the
  right: an element goes before the first element it does not have to follow.
\<close>

fun insertBy :: "('a \<Rightarrow> 'a \<Rightarrow> int) \<Rightarrow> 'a \<Rightarrow> 'a list \<Rightarrow> 'a list" where
  "insertBy cmp x [] = [x]"
| "insertBy cmp x (y # ys) = (if cmp x y \<le> 0 then x # y # ys else y # insertBy cmp x ys)"

definition arraySort :: "('a \<Rightarrow> 'a \<Rightarrow> int) \<Rightarrow> 'a list \<Rightarrow> 'a list" where
  "arraySort cmp xs = foldr (insertBy cmp) xs []"

subsection \<open>The tag pattern of convertNode\<close>

text \<open>
  The regular expression \<open>/@(?:notSupportedIn)\s*((?:[\w]+, )*[\w]+)/g\<close> (line 322).
  \<open>matchFeatures\<close> is its capturing group \<open>(?:[\w]+, )*[\w]+\<close> matched at the start of
  the input: a longest run of word characters, continued over a comma and one space as
  long as another word follows. Every quantifier is greedy, and none can give back a
  character: a shorter run of word characters is followed by a word character, and fewer
  white space is followed by white space, where the pattern wants something else.
\<close>

function matchFeatures :: "string \<Rightarrow> string option" where
  "matchFeatures s =
     (if takeWhile isWordChar s = [] then None
      else (case dropWhile isWordChar s of
              c1 # c2 # others \<Rightarrow>
                (if c1 = CHR '','' \<and> c2 = CHR '' '' then
                   (case matchFeatures others of
                      Some m \<Rightarrow> Some (takeWhile isWordChar s @ '', '' @ m)
                    | None \<Rightarrow> Some (takeWhile isWordChar s))
                 else Some (takeWhile isWordChar s))
            | _ \<Rightarrow> Some (takeWhile isWordChar s)))"
  by pat_completeness auto
termination
proof (relation "measure length")
  show "wf (measure length)" by simp
next
  fix s :: string and c1 c2 :: char and tl1 others :: string
  assume "dropWhile isWordChar s = c1 # tl1" and "tl1 = c2 # others"
  then have "length (dropWhile isWordChar s) = Suc (Suc (length others))" by simp
  moreover have "length (dropWhile isWordChar s) \<le> length s" by (rule length_dropWhile_le)
  ultimately show "(others, s) \<in> measure length" by simp
qed

declare matchFeatures.simps [simp del]

text \<open>
  The whole pattern matched at the start of the input: the length of the match and the
  text of group 1, or None.
\<close>

definition matchTagAt :: "string \<Rightarrow> (nat \<times> string) option" where
  "matchTagAt s =
     (if startsWith s ''@notSupportedIn'' then
        (let afterName = drop 15 s
         in case matchFeatures (dropWhile isSpaceChar afterName) of
              None \<Rightarrow> None
            | Some g \<Rightarrow> Some (15 + length (takeWhile isSpaceChar afterName) + length g, g))
      else None)"

text \<open>
  \<open>tagRegex.exec(comment)\<close> from \<open>lastIndex = 0\<close> (where the preceding \<open>replace\<close> leaves
  it): group 1 of the leftmost match, or None for the result \<open>null\<close>.
\<close>

fun execTag :: "string \<Rightarrow> string option" where
  "execTag [] = None"
| "execTag (c # cs) =
     (case matchTagAt (c # cs) of
        Some (n, g) \<Rightarrow> Some g
      | None \<Rightarrow> execTag cs)"

text \<open>\<open>comment.replace(tagRegex, '')\<close>: every match, from left to right, removed.\<close>

function replaceTag :: "string \<Rightarrow> string" where
  "replaceTag [] = []"
| "replaceTag (c # cs) =
     (case matchTagAt (c # cs) of
        None \<Rightarrow> c # replaceTag cs
      | Some (n, g) \<Rightarrow> replaceTag (drop n (c # cs)))"
  by pat_completeness auto
termination
proof (relation "measure length")
  show "wf (measure length)" by simp
next
  fix c :: char and cs :: string
  show "(cs, c # cs) \<in> measure length" by simp
next
  fix c :: char and cs :: string and x2 :: "nat \<times> string" and n :: nat and g :: string
  assume "matchTagAt (c # cs) = Some x2" and "(n, g) = x2"
  then have "15 \<le> n"
    by (auto simp: matchTagAt_def Let_def split: if_splits option.splits)
  then show "(drop n (c # cs), c # cs) \<in> measure length" by simp
qed

text \<open>
  \<open>s.split(/,\s?/)\<close>: the pieces between the separators, a separator being a comma and
  the white space character after it, if there is one. The first argument holds the
  piece read so far, reversed.
\<close>

fun splitAcc :: "string \<Rightarrow> string \<Rightarrow> string list" where
  "splitAcc acc [] = [rev acc]"
| "splitAcc acc (c # cs) =
     (if c = CHR '','' then
        rev acc # (case cs of
                     [] \<Rightarrow> splitAcc [] []
                   | d # ds \<Rightarrow> if isSpaceChar d then splitAcc [] ds else splitAcc [] (d # ds))
      else splitAcc (c # acc) cs)"

definition splitFeatures :: "string \<Rightarrow> string list" where
  "splitFeatures s = splitAcc [] s"

subsection \<open>The data model\<close>

type_synonym addr = nat
type_synonym node = nat
type_synonym rref = nat
type_synonym cref = nat
type_synonym tsType = nat
type_synonym docType = nat
type_synonym diagnostic = nat

text \<open>
  An \<open>addr\<close> is the identity of an array, a \<open>node\<close> of a \<open>ts.Node\<close>, an \<open>rref\<close> of a
  reflection, a \<open>cref\<close> of a converter component, a \<open>tsType\<close> of a \<open>ts.Type\<close>, a \<open>docType\<close>
  of a \<open>Type\<close> of the documentation model, a \<open>diagnostic\<close> of a \<open>ts.Diagnostic\<close>.
  An exception is a value: the \<open>TypeError\<close> the language raises when a property of
  \<open>null\<close> or \<open>undefined\<close> is read or called, or whatever a called collaborator throws.
\<close>

datatype error = TypeError | Thrown string

datatype reflectionKind = CoveoComponent | OtherKind nat

datatype reflectionFlag = CoveoComponentOptions | OtherFlag nat

record commentTag =
  tagName :: string
  paramName :: string
  tagText :: string

record comment =
  commentBody :: string
  tags :: "commentTag list option"

record featureInfo =
  link :: string
  name :: string

text \<open>
  The fields of a reflection that convertNode reads or writes. \<open>isDeclarationReflection\<close>
  is \<open>result instanceof DeclarationReflection\<close>; a field that may be undefined is an option.
\<close>

record reflection =
  kind :: reflectionKind
  comment :: "comment option"
  notSupportedIn :: "string list option"
  flags :: "reflectionFlag set"
  isDeclarationReflection :: bool
  extendedTypes :: "docType list option"
  implementedTypes :: "docType list option"

text \<open>What the methods of a \<open>ts.Program\<close> return.\<close>

record program =
  sourceFiles :: "node list"
  optionsDiagnostics :: "diagnostic list"
  syntacticDiagnostics :: "diagnostic list"
  globalDiagnostics :: "diagnostic list"
  semanticDiagnostics :: "diagnostic list"

text \<open>
  The calls the converter makes to its collaborators, in the order it makes them, each
  with what it returned. The log is kept by the model only: no collaborator can write it.
\<close>

datatype event =
    Trigger string "rref option"
  | CreateProgram addr "string list"
  | NewContext addr
  | NodeConvert cref node "rref option"
  | GetTypeAtLocation node
  | SupportsNode cref "tsType option" bool
  | ConvertNode cref "tsType option" "docType option"
  | SupportsType cref tsType bool
  | ConvertType cref tsType "docType option"
  | GetOptionsDiagnostics
  | GetSyntacticDiagnostics
  | GetGlobalDiagnostics
  | GetSemanticDiagnostics

text \<open>
  The state of a conversion: the stores of the arrays (\<open>strArrays\<close>, \<open>nodeArrays\<close>, with
  the next unused identity \<open>nextAddr\<close>) and of the reflections, the \<open>fileName\<close> of every
  source file node, the fields of the one \<open>Context\<close> object of the running conversion
  (\<open>fileNames\<close>, \<open>visitStack\<close>, \<open>program\<close>, \<open>project\<close>; the two arrays by reference), the
  enumerable properties of \<open>project.reflections\<close> (the id, whether the property is an own
  property, the reflection), and the state \<open>world\<close> of everything else.
\<close>

record 'w state =
  calls :: "event list"
  strArrays :: "addr \<Rightarrow> string list"
  nodeArrays :: "addr \<Rightarrow> node list"
  nextAddr :: addr
  reflections :: "rref \<Rightarrow> reflection"
  sourceFileName :: "node \<Rightarrow> string"
  fileNames :: addr
  visitStack :: addr
  program :: program
  project :: rref
  projectReflections :: "(nat \<times> bool \<times> rref) list"
  world :: 'w

text \<open>
  A converter component. \<open>isNodeComponent\<close> and \<open>isTypeComponent\<close> are the \<open>instanceof\<close>
  tests of addComponent; \<open>supports\<close> and \<open>nc_convert\<close> are \<open>supports\<close> and \<open>convert\<close> of a
  \<open>ConverterNodeComponent\<close>; \<open>priority\<close> is None when the property is missing; the four
  \<open>tc_\<close> fields are the methods \<open>supportsNode\<close>, \<open>convertNode\<close>, \<open>supportsType\<close> and
  \<open>convertType\<close> of a type converter, None when the component has no such property.
  A method takes the state and returns an exception, or its result and the new state.
\<close>

record 'w component =
  isNodeComponent :: bool
  isTypeComponent :: bool
  supports :: "nat list"
  nc_convert :: "'w state \<Rightarrow> node \<Rightarrow> error + (rref option \<times> 'w state)"
  priority :: "int option"
  tc_supportsNode :: "('w state \<Rightarrow> node \<Rightarrow> tsType option \<Rightarrow> error + (bool \<times> 'w state)) option"
  tc_convertNode :: "('w state \<Rightarrow> node \<Rightarrow> tsType option \<Rightarrow> error + (docType option \<times> 'w state)) option"
  tc_supportsType :: "('w state \<Rightarrow> tsType \<Rightarrow> error + (bool \<times> 'w state)) option"
  tc_convertType :: "('w state \<Rightarrow> tsType \<Rightarrow> error + (docType option \<times> 'w state)) option"

text \<open>
  The collaborators: \<open>_ts.normalizeSlashes\<close>, \<open>normalizePath\<close>, \<open>Path.isAbsolute\<close>,
  \<open>Path.join\<close>, \<open>compilerHost.currentDirectory\<close>, \<open>ts.createProgram\<close> (of the contents of
  the array it is given), \<open>getRawComment\<close> (which reads the text of the source file of the
  node and throws for a node that has none; None for null), \<open>parseComment\<close>, the lookup
  \<open>application.notSupportedFeaturesConfig[key]\<close> (None for a falsy result), \<open>toString\<close> of a
  \<open>Type\<close>, \<open>node.kind\<close>, \<open>context.getTypeAtLocation\<close> (None for undefined), \<open>this.trigger\<close>
  (the listeners of an event, run on the state), and the store of the components.
\<close>

record 'w env =
  normalizeSlashes :: "string \<Rightarrow> string"
  normalizePath :: "string \<Rightarrow> string"
  isAbsolute :: "string \<Rightarrow> bool"
  pathJoin :: "string \<Rightarrow> string \<Rightarrow> string"
  currentDirectory :: string
  createProgram :: "string list \<Rightarrow> program"
  getRawComment :: "node \<Rightarrow> error + string option"
  parseComment :: "string \<Rightarrow> comment"
  notSupportedFeaturesConfig :: "string \<Rightarrow> featureInfo option"
  typeToString :: "docType \<Rightarrow> string"
  nodeKind :: "node \<Rightarrow> nat"
  getTypeAtLocation :: "node \<Rightarrow> tsType option"
  trigger :: "string \<Rightarrow> rref option \<Rightarrow> 'w state \<Rightarrow> error + 'w state"
  components :: "cref \<Rightarrow> 'w component"

subsection \<open>The registry of converters\<close>

text \<open>
  The fields \<open>nodeConverters\<close> (an object used as a map from a syntax kind to a component),
  \<open>typeNodeConverters\<close> and \<open>typeTypeConverters\<close> of the class. The conversion functions
  below take the registry as an argument: components are registered and removed between
  conversions, not by a handler or a listener while one runs.
\<close>

record converter =
  nodeConverters :: "(nat \<times> cref) list"
  typeNodeConverters :: "cref list"
  typeTypeConverters :: "cref list"

definition initialize :: converter where
  "initialize = \<lparr>nodeConverters = [], typeNodeConverters = [], typeTypeConverters = []\<rparr>"

definition addNodeConverter :: "(cref \<Rightarrow> 'w component) \<Rightarrow> converter \<Rightarrow> cref \<Rightarrow> converter" where
  "addNodeConverter comps cv c =
     cv\<lparr>nodeConverters := foldl (\<lambda>m k. AList.update k c m) (nodeConverters cv) (supports (comps c))\<rparr>"

text \<open>\<open>b.priority || 0\<close>, and the comparison function of lines 218 and 223.\<close>

definition priorityOr0 :: "(cref \<Rightarrow> 'w component) \<Rightarrow> cref \<Rightarrow> int" where
  "priorityOr0 comps c = (case priority (comps c) of None \<Rightarrow> 0 | Some p \<Rightarrow> p)"

definition comparePriority :: "(cref \<Rightarrow> 'w component) \<Rightarrow> cref \<Rightarrow> cref \<Rightarrow> int" where
  "comparePriority comps a b = priorityOr0 comps b - priorityOr0 comps a"

definition addTypeConverter :: "(cref \<Rightarrow> 'w component) \<Rightarrow> converter \<Rightarrow> cref \<Rightarrow> converter" where
  "addTypeConverter comps cv c =
     (let cv1 =
        (if tc_supportsNode (comps c) \<noteq> None \<and> tc_convertNode (comps c) \<noteq> None
         then cv\<lparr>typeNodeConverters :=
                   arraySort (comparePriority comps) (typeNodeConverters cv @ [c])\<rparr>
         else cv)
      in if tc_supportsType (comps c) \<noteq> None \<and> tc_convertType (comps c) \<noteq> None
         then cv1\<lparr>typeTypeConverters :=
                    arraySort (comparePriority comps) (typeTypeConverters cv1 @ [c])\<rparr>
         else cv1)"

text \<open>
  addComponent and removeComponent after the call to the base class, which returns the
  component \<open>c\<close>.
\<close>

definition addComponent :: "(cref \<Rightarrow> 'w component) \<Rightarrow> converter \<Rightarrow> cref \<Rightarrow> converter" where
  "addComponent comps cv c =
     (if isNodeComponent (comps c) then addNodeConverter comps cv c
      else if isTypeComponent (comps c) then addTypeConverter comps cv c
      else cv)"

text \<open>The loop over \<open>_.keys(this.nodeConverters)\<close> of removeNodeConverter.\<close>

fun removeKeys :: "nat list \<Rightarrow> cref \<Rightarrow> (nat \<times> cref) list \<Rightarrow> (nat \<times> cref) list" where
  "removeKeys [] c m = m"
| "removeKeys (k # ks) c m =
     removeKeys ks c (if map_of m k = Some c then AList.delete k m else m)"

definition removeNodeConverter :: "converter \<Rightarrow> cref \<Rightarrow> converter" where
  "removeNodeConverter cv c =
     cv\<lparr>nodeConverters := removeKeys (map fst (nodeConverters cv)) c (nodeConverters cv)\<rparr>"

definition removeTypeConverter :: "converter \<Rightarrow> cref \<Rightarrow> converter" where
  "removeTypeConverter cv c =
     (let typeIndex = indexOf (typeTypeConverters cv) c;
          cv1 = (if typeIndex \<noteq> - 1
                 then cv\<lparr>typeTypeConverters := splice1 typeIndex (typeTypeConverters cv)\<rparr>
                 else cv);
          nodeIndex = indexOf (typeNodeConverters cv1) c
      in if nodeIndex \<noteq> - 1
         then cv1\<lparr>typeNodeConverters := splice1 nodeIndex (typeNodeConverters cv1)\<rparr>
         else cv1)"

definition removeComponent :: "(cref \<Rightarrow> 'w component) \<Rightarrow> converter \<Rightarrow> cref \<Rightarrow> converter" where
  "removeComponent comps cv c =
     (if isNodeComponent (comps c) then removeNodeConverter cv c
      else if isTypeComponent (comps c) then removeTypeConverter cv c
      else cv)"

definition removeAllComponents :: "converter \<Rightarrow> converter" where
  "removeAllComponents cv =
     cv\<lparr>nodeConverters := [], typeTypeConverters := [], typeNodeConverters := []\<rparr>"

text \<open>
  A sequence of registrations and removals, run from the state initialize leaves.
\<close>

datatype registryOp = Register cref | Unregister cref | Clear

fun applyOp :: "(cref \<Rightarrow> 'w component) \<Rightarrow> converter \<Rightarrow> registryOp \<Rightarrow> converter" where
  "applyOp comps cv (Register c) = addTypeConverter comps cv c"
| "applyOp comps cv (Unregister c) = removeTypeConverter cv c"
| "applyOp comps cv Clear = removeAllComponents cv"

definition runOps :: "(cref \<Rightarrow> 'w component) \<Rightarrow> registryOp list \<Rightarrow> converter" where
  "runOps comps ops = foldl (applyOp comps) initialize ops"

text \<open>
  What the specification speaks of, in its words: the node-driven (type-driven) type
  converters that are registered, in the order of their registration. A registration
  appends the converter when it has the role, a removal takes its earliest entry away.
\<close>

definition hasNodeRole :: "(cref \<Rightarrow> 'w component) \<Rightarrow> cref \<Rightarrow> bool" where
  "hasNodeRole comps c = (tc_supportsNode (comps c) \<noteq> None \<and> tc_convertNode (comps c) \<noteq> None)"

definition hasTypeRole :: "(cref \<Rightarrow> 'w component) \<Rightarrow> cref \<Rightarrow> bool" where
  "hasTypeRole comps c = (tc_supportsType (comps c) \<noteq> None \<and> tc_convertType (comps c) \<noteq> None)"

fun registeredStep :: "(cref \<Rightarrow> bool) \<Rightarrow> cref list \<Rightarrow> registryOp \<Rightarrow> cref list" where
  "registeredStep role xs (Register c) = (if role c then xs @ [c] else xs)"
| "registeredStep role xs (Unregister c) = remove1 c xs"
| "registeredStep role xs Clear = []"

definition registrationOrder :: "(cref \<Rightarrow> bool) \<Rightarrow> registryOp list \<Rightarrow> cref list" where
  "registrationOrder role ops = foldl (registeredStep role) [] ops"

definition sortedDescending :: "(cref \<Rightarrow> 'w component) \<Rightarrow> cref list \<Rightarrow> bool" where
  "sortedDescending comps xs = sorted_wrt (\<lambda>a b. priorityOr0 comps a \<ge> priorityOr0 comps b) xs"

text \<open>
  The invariant of one priority list \<open>xs\<close> against the registration order \<open>reg\<close>, with
  the priorities negated so that descending reads as the library's ascending \<open>sorted\<close>.
\<close>

definition registryInv :: "(cref \<Rightarrow> 'w component) \<Rightarrow> cref list \<Rightarrow> cref list \<Rightarrow> bool" where
  "registryInv comps xs reg =
     (sorted (map (\<lambda>c. - priorityOr0 comps c) xs) \<and>
      (\<forall>k. filter (\<lambda>c. - priorityOr0 comps c = k) xs =
           filter (\<lambda>c. - priorityOr0 comps c = k) reg))"

subsection \<open>Calls to collaborators\<close>

definition logCall :: "event \<Rightarrow> 'w state \<Rightarrow> 'w state" where
  "logCall ev s = s\<lparr>calls := calls s @ [ev]\<rparr>"

text \<open>
  A call of a method that returns a result: the method runs on the state; the log of the
  state it returns is the log before the call and the call.
\<close>

definition callMethod ::
  "('w state \<Rightarrow> error + ('a \<times> 'w state)) \<Rightarrow> ('a \<Rightarrow> event) \<Rightarrow> 'w state \<Rightarrow> error + ('a \<times> 'w state)" where
  "callMethod m ev s =
     (case m s of
        Inl e \<Rightarrow> Inl e
      | Inr (x, s') \<Rightarrow> Inr (x, s'\<lparr>calls := calls s @ [ev x]\<rparr>))"

text \<open>\<open>this.trigger(name, context, reflection)\<close>.\<close>

definition callTrigger :: "'w env \<Rightarrow> string \<Rightarrow> rref option \<Rightarrow> 'w state \<Rightarrow> error + 'w state" where
  "callTrigger env nm arg s =
     (case trigger env nm arg s of
        Inl e \<Rightarrow> Inl e
      | Inr s' \<Rightarrow> Inr (s'\<lparr>calls := calls s @ [Trigger nm arg]\<rparr>))"

definition EVENT_BEGIN :: string where
  "EVENT_BEGIN = ''begin''"

definition EVENT_END :: string where
  "EVENT_END = ''end''"

definition EVENT_RESOLVE_BEGIN :: string where
  "EVENT_RESOLVE_BEGIN = ''resolveBegin''"

definition EVENT_RESOLVE :: string where
  "EVENT_RESOLVE = ''resolveReflection''"

definition EVENT_RESOLVE_END :: string where
  "EVENT_RESOLVE_END = ''resolveEnd''"

subsection \<open>convertNode (lines 304 to 366)\<close>

text \<open>
  \<open>a.slice()\<close> makes a new array with the elements of \<open>a\<close> and returns its identity;
  \<open>a.push(n)\<close> changes the array \<open>a\<close> itself.
\<close>

definition slice :: "'w state \<Rightarrow> addr \<Rightarrow> addr \<times> 'w state" where
  "slice s a =
     (nextAddr s,
      s\<lparr>nodeArrays := (nodeArrays s)(nextAddr s := nodeArrays s a), nextAddr := Suc (nextAddr s)\<rparr>)"

definition push :: "'w state \<Rightarrow> addr \<Rightarrow> node \<Rightarrow> 'w state" where
  "push s a n = s\<lparr>nodeArrays := (nodeArrays s)(a := nodeArrays s a @ [n])\<rparr>"

definition updateReflection :: "rref \<Rightarrow> (reflection \<Rightarrow> reflection) \<Rightarrow> 'w state \<Rightarrow> 'w state" where
  "updateReflection r f s = s\<lparr>reflections := (reflections s)(r := f (reflections s r))\<rparr>"

text \<open>
  Lines 322 to 338, the body of the first \<open>if\<close> after the handler: the comment is parsed
  without the tags, the pattern is run on the raw comment, and \<open>tag[1]\<close> is read from
  what \<open>exec\<close> returned. Reading it from \<open>null\<close> raises a TypeError.
\<close>

definition applyNotSupportedIn :: "'w env \<Rightarrow> rref \<Rightarrow> string \<Rightarrow> 'w state \<Rightarrow> error + 'w state" where
  "applyNotSupportedIn env r rawComment s =
     (let parsed = parseComment env (replaceTag rawComment);
          tag = execTag rawComment;
          withTags = (case tags parsed of None \<Rightarrow> parsed\<lparr>tags := Some []\<rparr> | Some ts \<Rightarrow> parsed)
      in case tag of
           None \<Rightarrow> Inl TypeError
         | Some group1 \<Rightarrow>
             (let tagValue =
                    (case notSupportedFeaturesConfig env group1 of
                       None \<Rightarrow> group1
                     | Some info \<Rightarrow>
                         ''<a href='' @ [CHR 0x22] @ link info @ [CHR 0x22] @ ''>'' @ name info @ ''</a>'');
                  newTag = \<lparr>tagName = ''not supported in'', paramName = [], tagText = tagValue\<rparr>;
                  pushed = withTags\<lparr>tags := map_option (\<lambda>ts. ts @ [newTag]) (tags withTags)\<rparr>
              in Inr (updateReflection r
                        (\<lambda>x. x\<lparr>comment := Some pushed, notSupportedIn := Some (splitFeatures group1)\<rparr>) s)))"

text \<open>Lines 345 to 362: the two \<open>forEach\<close> loops over the recorded types.\<close>

definition markComponent :: "'w env \<Rightarrow> rref \<Rightarrow> 'w state \<Rightarrow> 'w state" where
  "markComponent env r s =
     (let s1 =
        (case extendedTypes (reflections s r) of
           None \<Rightarrow> s
         | Some ts \<Rightarrow>
             foldl (\<lambda>st t. if toLowerCase (typeToString env t) = ''component''
                            then updateReflection r (\<lambda>x. x\<lparr>kind := CoveoComponent\<rparr>) st else st) s ts)
      in case implementedTypes (reflections s1 r) of
           None \<Rightarrow> s1
         | Some impls \<Rightarrow>
             foldl (\<lambda>st impl. if strIndexOf (toLowerCase (typeToString env impl)) ''icomponentbindings'' \<ge> 0
                               then updateReflection r (\<lambda>x. x\<lparr>kind := CoveoComponent\<rparr>) st else st) s1 impls)"

text \<open>
  Lines 319 to 365, what convertNode does once the handler has returned and the visit
  stack is restored. Line 319 reads the raw comment of the node whatever the result is,
  and an exception of that call ends convertNode. Each of the three conditions that
  follow starts with \<open>result &&\<close>.
\<close>

definition postProcess ::
  "'w env \<Rightarrow> node \<Rightarrow> rref option \<Rightarrow> 'w state \<Rightarrow> error + (rref option \<times> 'w state)" where
  "postProcess env nd result s =
     (case getRawComment env nd of
        Inl e \<Rightarrow> Inl e
      | Inr rawComment \<Rightarrow>
       (case result of
           None \<Rightarrow> Inr (None, s)
         | Some r \<Rightarrow>
             (case (case rawComment of
                      None \<Rightarrow> Inr s
                    | Some cm \<Rightarrow>
                        if strIndexOf cm ''@notSupportedIn'' \<noteq> - 1
                        then applyNotSupportedIn env r cm s else Inr s) of
                Inl e \<Rightarrow> Inl e
              | Inr s1 \<Rightarrow>
                  (let s2 =
                         (case rawComment of
                            None \<Rightarrow> s1
                          | Some cm \<Rightarrow>
                              if strIndexOf cm ''@componentOptions'' \<noteq> - 1
                              then updateReflection r
                                     (\<lambda>x. x\<lparr>flags := insert CoveoComponentOptions (flags x)\<rparr>) s1
                              else s1);
                       s3 = (if isDeclarationReflection (reflections s2 r)
                             then markComponent env r s2 else s2)
                   in Inr (Some r, s3)))))"

text \<open>
  Lines 310 and 311: a copy of the visit stack is installed in the context and the node
  is pushed onto it.
\<close>

definition enteredState :: "'w state \<Rightarrow> node \<Rightarrow> 'w state" where
  "enteredState s nd =
     (case slice s (visitStack s) of
        (copy, s1) \<Rightarrow>
          (let s2 = s1\<lparr>visitStack := copy\<rparr>
           in push s2 (visitStack s2) nd))"

text \<open>
  Lines 313 to 316: the handler registered for the kind of the node converts it; with no
  handler, \<open>result\<close> stays undefined.
\<close>

definition runHandler ::
  "'w env \<Rightarrow> converter \<Rightarrow> 'w state \<Rightarrow> node \<Rightarrow> error + (rref option \<times> 'w state)" where
  "runHandler env cv s nd =
     (case map_of (nodeConverters cv) (nodeKind env nd) of
        None \<Rightarrow> Inr (None, s)
      | Some c \<Rightarrow>
          callMethod (\<lambda>st. nc_convert (components env c) st nd) (NodeConvert c nd) s)"

definition convertNode ::
  "'w env \<Rightarrow> converter \<Rightarrow> 'w state \<Rightarrow> node \<Rightarrow> error + (rref option \<times> 'w state)" where
  "convertNode env cv s nd =
     (if indexOf (nodeArrays s (visitStack s)) nd \<noteq> - 1 then Inr (None, s)
      else
        (let oldVisitStack = visitStack s;
             s3 = enteredState s nd
         in case runHandler env cv s3 nd of
              Inl e \<Rightarrow> Inl e
            | Inr (result, s4) \<Rightarrow>
                postProcess env nd result (s4\<lparr>visitStack := oldVisitStack\<rparr>)))"

text \<open>A step that writes nothing but reflections.\<close>

definition reflectionsOnly :: "'w state \<Rightarrow> 'w state \<Rightarrow> bool" where
  "reflectionsOnly s s' = (s' = s\<lparr>reflections := reflections s'\<rparr>)"

text \<open>
  The specification's condition on a declaration reflection, in its words: an extended
  type whose text, in lower case, is \<open>component\<close>, or an implemented type whose text, in
  lower case, contains \<open>icomponentbindings\<close>.
\<close>

definition extendsComponent :: "'w env \<Rightarrow> reflection \<Rightarrow> bool" where
  "extendsComponent env x =
     (case extendedTypes x of
        None \<Rightarrow> False
      | Some ts \<Rightarrow> list_ex (\<lambda>t. toLowerCase (typeToString env t) = ''component'') ts)"

definition implementsBindings :: "'w env \<Rightarrow> reflection \<Rightarrow> bool" where
  "implementsBindings env x =
     (case implementedTypes x of
        None \<Rightarrow> False
      | Some impls \<Rightarrow>
          list_ex (\<lambda>i. 0 \<le> strIndexOf (toLowerCase (typeToString env i)) ''icomponentbindings'') impls)"

definition namedComponent :: "'w env \<Rightarrow> reflection \<Rightarrow> bool" where
  "namedComponent env x = (extendsComponent env x \<or> implementsBindings env x)"

subsection \<open>convertType (lines 376 to 396)\<close>

text \<open>
  The two loops. The result is None when the loop ends without a match, and Some of what
  the matching converter returned otherwise. Calling a method the component does not have
  raises a TypeError.
\<close>

fun scanNodeConverters ::
  "'w env \<Rightarrow> cref list \<Rightarrow> node \<Rightarrow> tsType option \<Rightarrow> 'w state \<Rightarrow> error + (docType option option \<times> 'w state)" where
  "scanNodeConverters env [] nd ty s = Inr (None, s)"
| "scanNodeConverters env (c # cs) nd ty s =
     (case tc_supportsNode (components env c) of
        None \<Rightarrow> Inl TypeError
      | Some supportsNode \<Rightarrow>
          (case callMethod (\<lambda>st. supportsNode st nd ty) (SupportsNode c ty) s of
             Inl e \<Rightarrow> Inl e
           | Inr (matches, s1) \<Rightarrow>
               if matches then
                 (case tc_convertNode (components env c) of
                    None \<Rightarrow> Inl TypeError
                  | Some convertNode' \<Rightarrow>
                      (case callMethod (\<lambda>st. convertNode' st nd ty) (ConvertNode c ty) s1 of
                         Inl e \<Rightarrow> Inl e
                       | Inr (result, s2) \<Rightarrow> Inr (Some result, s2)))
               else scanNodeConverters env cs nd ty s1))"

fun scanTypeConverters ::
  "'w env \<Rightarrow> cref list \<Rightarrow> tsType \<Rightarrow> 'w state \<Rightarrow> error + (docType option option \<times> 'w state)" where
  "scanTypeConverters env [] ty s = Inr (None, s)"
| "scanTypeConverters env (c # cs) ty s =
     (case tc_supportsType (components env c) of
        None \<Rightarrow> Inl TypeError
      | Some supportsType \<Rightarrow>
          (case callMethod (\<lambda>st. supportsType st ty) (SupportsType c ty) s of
             Inl e \<Rightarrow> Inl e
           | Inr (matches, s1) \<Rightarrow>
               if matches then
                 (case tc_convertType (components env c) of
                    None \<Rightarrow> Inl TypeError
                  | Some convertType' \<Rightarrow>
                      (case callMethod (\<lambda>st. convertType' st ty) (ConvertType c ty) s1 of
                         Inl e \<Rightarrow> Inl e
                       | Inr (result, s2) \<Rightarrow> Inr (Some result, s2)))
               else scanTypeConverters env cs ty s1))"

text \<open>The second block of convertType: \<open>if (type) { for ... }\<close>, then the end of the function.\<close>

definition typeDriven ::
  "'w env \<Rightarrow> converter \<Rightarrow> tsType option \<Rightarrow> 'w state \<Rightarrow> error + (docType option \<times> 'w state)" where
  "typeDriven env cv ty s =
     (case ty of
        None \<Rightarrow> Inr (None, s)
      | Some t \<Rightarrow>
          (case scanTypeConverters env (typeTypeConverters cv) t s of
             Inl e \<Rightarrow> Inl e
           | Inr (None, s1) \<Rightarrow> Inr (None, s1)
           | Inr (Some result, s1) \<Rightarrow> Inr (result, s1)))"

definition convertType ::
  "'w env \<Rightarrow> converter \<Rightarrow> 'w state \<Rightarrow> node option \<Rightarrow> tsType option \<Rightarrow> error + (docType option \<times> 'w state)" where
  "convertType env cv s nodeArg typeArg =
     (case nodeArg of
        None \<Rightarrow> typeDriven env cv typeArg s
      | Some nd \<Rightarrow>
          (let ty = (case typeArg of Some t \<Rightarrow> Some t | None \<Rightarrow> getTypeAtLocation env nd);
               s1 = (case typeArg of Some t \<Rightarrow> s | None \<Rightarrow> logCall (GetTypeAtLocation nd) s)
           in case scanNodeConverters env (typeNodeConverters cv) nd ty s1 of
                Inl e \<Rightarrow> Inl e
              | Inr (Some result, s2) \<Rightarrow> Inr (result, s2)
              | Inr (None, s2) \<Rightarrow> typeDriven env cv ty s2))"

text \<open>
  The specification's first-match policy as a log of calls: a list of converters of which
  the first \<open>i\<close> do not support the input and the next one does and converts it to
  \<open>result\<close>, and a list of which none supports it.
\<close>

definition firstMatchLog ::
  "(cref \<Rightarrow> bool \<Rightarrow> event) \<Rightarrow> (cref \<Rightarrow> docType option \<Rightarrow> event) \<Rightarrow> cref list \<Rightarrow> nat \<Rightarrow> docType option \<Rightarrow> event list" where
  "firstMatchLog asked converted cs i result =
     map (\<lambda>c. asked c False) (take i cs) @ [asked (cs ! i) True, converted (cs ! i) result]"

definition noMatchLog :: "(cref \<Rightarrow> bool \<Rightarrow> event) \<Rightarrow> cref list \<Rightarrow> event list" where
  "noMatchLog asked cs = map (\<lambda>c. asked c False) cs"

subsection \<open>compile (lines 404 to 436)\<close>

text \<open>The \<open>forEach\<close> over \<open>program.getSourceFiles()\<close>, lines 408 to 413.\<close>

fun convertSourceFiles :: "'w env \<Rightarrow> converter \<Rightarrow> node list \<Rightarrow> 'w state \<Rightarrow> error + 'w state" where
  "convertSourceFiles env cv [] s = Inr s"
| "convertSourceFiles env cv (sourceFile # others) s =
     (let s1 =
        (if \<not> isAbsolute env (sourceFileName s sourceFile)
         then s\<lparr>sourceFileName := (sourceFileName s)
                  (sourceFile := normalizePath env (normalizeSlashes env
                     (pathJoin env (currentDirectory env) (sourceFileName s sourceFile))))\<rparr>
         else s)
      in case convertNode env cv s1 sourceFile of
           Inl e \<Rightarrow> Inl e
         | Inr (result, s2) \<Rightarrow> convertSourceFiles env cv others s2)"

definition compile :: "'w env \<Rightarrow> converter \<Rightarrow> 'w state \<Rightarrow> error + (diagnostic list \<times> 'w state)" where
  "compile env cv s =
     (let prog = program s
      in case convertSourceFiles env cv (sourceFiles prog) s of
           Inl e \<Rightarrow> Inl e
         | Inr s1 \<Rightarrow>
             (let s2 = logCall GetOptionsDiagnostics s1
              in if optionsDiagnostics prog \<noteq> [] then Inr (optionsDiagnostics prog, s2)
                 else
                   (let s3 = logCall GetSyntacticDiagnostics s2
                    in if syntacticDiagnostics prog \<noteq> [] then Inr (syntacticDiagnostics prog, s3)
                       else
                         (let s4 = logCall GetGlobalDiagnostics s3
                          in if globalDiagnostics prog \<noteq> [] then Inr (globalDiagnostics prog, s4)
                             else
                               (let s5 = logCall GetSemanticDiagnostics s4
                                in if semanticDiagnostics prog \<noteq> []
                                   then Inr (semanticDiagnostics prog, s5)
                                   else Inr ([], s5))))))"

subsection \<open>resolve (lines 444 to 457)\<close>

text \<open>
  The loop \<open>for (let id in project.reflections)\<close> over the ids enumerated when the loop
  starts; an id whose property is gone when its turn comes is not visited.
\<close>

fun resolveLoop :: "'w env \<Rightarrow> nat list \<Rightarrow> 'w state \<Rightarrow> error + 'w state" where
  "resolveLoop env [] s = Inr s"
| "resolveLoop env (i # ids) s =
     (case map_of (projectReflections s) i of
        None \<Rightarrow> resolveLoop env ids s
      | Some (own, r) \<Rightarrow>
          if \<not> own then resolveLoop env ids s
          else (case callTrigger env EVENT_RESOLVE (Some r) s of
                  Inl e \<Rightarrow> Inl e
                | Inr s1 \<Rightarrow> resolveLoop env ids s1))"

definition resolve :: "'w env \<Rightarrow> 'w state \<Rightarrow> error + (rref \<times> 'w state)" where
  "resolve env s =
     (case callTrigger env EVENT_RESOLVE_BEGIN None s of
        Inl e \<Rightarrow> Inl e
      | Inr s1 \<Rightarrow>
          (let proj = project s1
           in case resolveLoop env (map fst (projectReflections s1)) s1 of
                Inl e \<Rightarrow> Inl e
              | Inr s2 \<Rightarrow>
                  (case callTrigger env EVENT_RESOLVE_END None s2 of
                     Inl e \<Rightarrow> Inl e
                   | Inr s3 \<Rightarrow> Inr (proj, s3))))"

subsection \<open>convert (lines 273 to 293)\<close>

text \<open>
  The loop of lines 274 to 276 on the array \<open>a\<close>: \<open>i\<close> counts up to \<open>c\<close>, the length the
  array had when the loop started; element \<open>i\<close> is overwritten in the array itself.
  Of \<open>ts.createProgram\<close> the model keeps the array it is given; the compiler options,
  the compiler host and the type checker of the program take no part in what follows.
\<close>

function normalizeLoop :: "'w env \<Rightarrow> addr \<Rightarrow> nat \<Rightarrow> nat \<Rightarrow> 'w state \<Rightarrow> 'w state" where
  "normalizeLoop env a i c s =
     (if i < c
      then normalizeLoop env a (Suc i) c
             (s\<lparr>strArrays := (strArrays s)
                  (a := (strArrays s a)[i := normalizePath env (normalizeSlashes env (strArrays s a ! i))])\<rparr>)
      else s)"
  by pat_completeness auto
termination
  by (relation "measure (\<lambda>(env, a, i, c, s). c - i)") auto

declare normalizeLoop.simps [simp del]

text \<open>
  Modelled from the spec: the constructor of \<open>Context\<close> (src/lib/converter/context.ts is
  not among the sources). The Context owns the file names it is given, the program, a
  project created once per call of convert, and a visit stack: here a new empty array and
  a new project with no reflections.
\<close>

definition newContext :: "addr \<Rightarrow> program \<Rightarrow> 'w state \<Rightarrow> 'w state" where
  "newContext files prog s =
     logCall (NewContext files)
       (s\<lparr>fileNames := files, program := prog,
          visitStack := nextAddr s,
          nodeArrays := (nodeArrays s)(nextAddr s := []),
          project := Suc (nextAddr s),
          projectReflections := [],
          nextAddr := Suc (Suc (nextAddr s))\<rparr>)"

record converterResult =
  errors :: "diagnostic list"
  projectResult :: rref

definition convert ::
  "'w env \<Rightarrow> converter \<Rightarrow> addr \<Rightarrow> 'w state \<Rightarrow> error + (converterResult \<times> 'w state)" where
  "convert env cv fileNamesArg s =
     (let s1 = normalizeLoop env fileNamesArg 0 (length (strArrays s fileNamesArg)) s;
          prog = createProgram env (strArrays s1 fileNamesArg);
          s2 = logCall (CreateProgram fileNamesArg (strArrays s1 fileNamesArg)) s1;
          s3 = newContext fileNamesArg prog s2
      in case callTrigger env EVENT_BEGIN None s3 of
           Inl e \<Rightarrow> Inl e
         | Inr s4 \<Rightarrow>
             (case compile env cv s4 of
                Inl e \<Rightarrow> Inl e
              | Inr (errs, s5) \<Rightarrow>
                  (case resolve env s5 of
                     Inl e \<Rightarrow> Inl e
                   | Inr (proj, s6) \<Rightarrow>
                       (case callTrigger env EVENT_END None s6 of
                          Inl e \<Rightarrow> Inl e
                        | Inr s7 \<Rightarrow> Inr (\<lparr>errors = errs, projectResult = proj\<rparr>, s7)))))"

text \<open>
  The kinds of calls in the log: a handler converting a node, the program asked for
  diagnostics, the listeners of the resolve event called with a reflection.
\<close>

fun isHandlerCall :: "event \<Rightarrow> bool" where
  "isHandlerCall (NodeConvert c nd r) = True"
| "isHandlerCall e = False"

fun isDiagnosticCall :: "event \<Rightarrow> bool" where
  "isDiagnosticCall GetOptionsDiagnostics = True"
| "isDiagnosticCall GetSyntacticDiagnostics = True"
| "isDiagnosticCall GetGlobalDiagnostics = True"
| "isDiagnosticCall GetSemanticDiagnostics = True"
| "isDiagnosticCall e = False"

fun isResolveTrigger :: "event \<Rightarrow> bool" where
  "isResolveTrigger (Trigger nm (Some r)) = (nm = EVENT_RESOLVE)"
| "isResolveTrigger e = False"

text \<open>
  The firing of events, in the words of the specification: the listeners of each event
  of a list run, in the order of the list, on the state that the listeners before them
  left, and what a listener throws ends the firing. Each firing is logged.
\<close>

fun fireEvents :: "'w env \<Rightarrow> (string \<times> rref option) list \<Rightarrow> 'w state \<Rightarrow> error + 'w state" where
  "fireEvents env [] s = Inr s"
| "fireEvents env ((nm, arg) # others) s =
     (case trigger env nm arg s of
        Inl e \<Rightarrow> Inl e
      | Inr s1 \<Rightarrow> fireEvents env others (s1\<lparr>calls := calls s @ [Trigger nm arg]\<rparr>))"

text \<open>
  The reflections registered under the project as own properties, in the order of their
  enumeration; and the reflections that a loop over the ids \<open>ids\<close> finds registered.
\<close>

definition ownReflections :: "(nat \<times> bool \<times> rref) list \<Rightarrow> rref list" where
  "ownReflections regs = map (\<lambda>(i, own, r). r) (filter (\<lambda>(i, own, r). own) regs)"

definition visited :: "(nat \<times> bool \<times> rref) list \<Rightarrow> nat list \<Rightarrow> rref list" where
  "visited regs ids =
     concat (map (\<lambda>i. case map_of regs i of
                         None \<Rightarrow> []
                       | Some (own, r) \<Rightarrow> if own then [r] else []) ids)"

text \<open>A step that leaves the arrays of file names, and the one the Context holds, alone.\<close>

definition keepsFiles :: "'w state \<Rightarrow> 'w state \<Rightarrow> bool" where
  "keepsFiles s s' = (strArrays s' = strArrays s \<and> fileNames s' = fileNames s)"

subsection \<open>A small conversion to run\<close>

text \<open>
  Collaborators and a state on which the functions above can be evaluated. The path
  utilities replace every backslash by a slash. Component 1 handles the node kinds 7
  and 8: it returns the reflection 5 and registers it in the project. Component 2 handles
  kind 9 by converting the node it is given once more, that is, a node that refers to
  itself. Component 3 handles kind 10 by converting the child node 8 and returning the
  reflection 6. Components 10 and 11 are node-driven type converters, 12 and 11
  type-driven ones; 10 and 12 have priority 5 and support nothing, 11 has no priority and
  supports everything. The nodes 1 and 4 have the kind 7, the nodes 3, 2 and 7 the kinds
  8, 9 and 10, every other node the kind 0. Node 9 has no source file, so that reading
  its raw comment throws. The conversions that the components 2 and 3 start run with no
  component registered.
\<close>

definition emptyComponent :: "unit component" where
  "emptyComponent =
     \<lparr>isNodeComponent = False, isTypeComponent = False, supports = [],
      nc_convert = (\<lambda>s n. Inr (None, s)), priority = None,
      tc_supportsNode = None, tc_convertNode = None,
      tc_supportsType = None, tc_convertType = None\<rparr>"

definition slashes :: "string \<Rightarrow> string" where
  "slashes p = map (\<lambda>c. if c = CHR 0x5C then CHR ''/'' else c) p"

definition demoProgram :: program where
  "demoProgram =
     \<lparr>sourceFiles = [1, 2], optionsDiagnostics = [], syntacticDiagnostics = [],
      globalDiagnostics = [], semanticDiagnostics = [3]\<rparr>"

definition demoEnvWith :: "(cref \<Rightarrow> unit component) \<Rightarrow> unit env" where
  "demoEnvWith comps =
     \<lparr>normalizeSlashes = slashes, normalizePath = slashes,
      isAbsolute = (\<lambda>p. startsWith p ''/''),
      pathJoin = (\<lambda>a b. a @ ''/'' @ b),
      currentDirectory = ''/app'',
      createProgram = (\<lambda>files. demoProgram),
      getRawComment =
        (\<lambda>n. if n = 1
             then Inr (Some ''/** Docs @notSupportedIn IE, Firefox @componentOptions */'')
             else if n = 3 then Inr (Some ''/** @notSupportedIn */'')
             else if n = 9 then Inl TypeError
             else Inr None),
      parseComment = (\<lambda>t. \<lparr>commentBody = t, tags = None\<rparr>),
      notSupportedFeaturesConfig = (\<lambda>k. None),
      typeToString = (\<lambda>t. if t = 0 then ''Component'' else ''Base''),
      nodeKind = (\<lambda>n. if n = 1 \<or> n = 4 then 7 else if n = 3 then 8 else if n = 2 then 9
                       else if n = 7 then 10 else 0),
      getTypeAtLocation = (\<lambda>n. Some 20),
      trigger = (\<lambda>nm arg s. Inr s),
      components = comps\<rparr>"

definition demoBaseEnv :: "unit env" where
  "demoBaseEnv = demoEnvWith (\<lambda>c. emptyComponent)"

definition demoComponents :: "cref \<Rightarrow> unit component" where
  "demoComponents c =
     (if c = 1 then
        emptyComponent\<lparr>isNodeComponent := True, supports := [7, 8],
          nc_convert := (\<lambda>s n. Inr (Some 5, s\<lparr>projectReflections := projectReflections s @ [(5, True, 5)]\<rparr>))\<rparr>
      else if c = 2 then
        emptyComponent\<lparr>isNodeComponent := True, supports := [9],
          nc_convert := (\<lambda>s n. convertNode demoBaseEnv initialize s n)\<rparr>
      else if c = 3 then
        emptyComponent\<lparr>isNodeComponent := True, supports := [10],
          nc_convert := (\<lambda>s n. case convertNode demoBaseEnv initialize s 8 of
                                   Inl e \<Rightarrow> Inl e
                                 | Inr (child, s') \<Rightarrow> Inr (Some 6, s'))\<rparr>
      else if c = 10 then
        emptyComponent\<lparr>isTypeComponent := True, priority := Some 5,
          tc_supportsNode := Some (\<lambda>s n t. Inr (False, s)),
          tc_convertNode := Some (\<lambda>s n t. Inr (None, s))\<rparr>
      else if c = 11 then
        emptyComponent\<lparr>isTypeComponent := True,
          tc_supportsNode := Some (\<lambda>s n t. Inr (True, s)),
          tc_convertNode := Some (\<lambda>s n t. Inr (Some 42, s)),
          tc_supportsType := Some (\<lambda>s t. Inr (True, s)),
          tc_convertType := Some (\<lambda>s t. Inr (Some 43, s))\<rparr>
      else if c = 12 then
        emptyComponent\<lparr>isTypeComponent := True, priority := Some 5,
          tc_supportsType := Some (\<lambda>s t. Inr (False, s)),
          tc_convertType := Some (\<lambda>s t. Inr (None, s))\<rparr>
      else emptyComponent)"

definition demoEnv :: "unit env" where
  "demoEnv = demoEnvWith demoComponents"

definition demoConverter :: converter where
  "demoConverter =
     foldl (addComponent demoComponents) initialize [1, 2, 3, 11, 10, 12]"

definition emptyReflection :: reflection where
  "emptyReflection =
     \<lparr>kind = OtherKind 0, comment = None, notSupportedIn = None, flags = {},
      isDeclarationReflection = False, extendedTypes = None, implementedTypes = None\<rparr>"

definition demoState :: "unit state" where
  "demoState =
     \<lparr>calls = [],
      strArrays = (\<lambda>a. [])(0 := [''src'' @ [CHR 0x5C] @ ''a.ts'', ''src/a.ts'']),
      nodeArrays = (\<lambda>a. [])(1 := [4]),
      nextAddr = 2,
      reflections = (\<lambda>r. emptyReflection)
        (5 := emptyReflection\<lparr>isDeclarationReflection := True, extendedTypes := Some [1, 0]\<rparr>),
      sourceFileName = (\<lambda>n. ''lib.d.ts''),
      fileNames = 0, visitStack = 1, program = demoProgram, project = 0,
      projectReflections = [], world = ()\<rparr>"

section \<open>Properties\<close>

subsection \<open>Arrays\<close>

lemma indexOf_notin: "x \<notin> set xs \<Longrightarrow> indexOf xs x = - 1"
  by (induction xs) (auto simp: Let_def)

lemma indexOf_in: "x \<in> set xs \<Longrightarrow> 0 \<le> indexOf xs x"
proof (induction xs)
  case Nil
  then show ?case by simp
next
  case (Cons y ys)
  show ?case
  proof (cases "y = x")
    case True
    then show ?thesis by simp
  next
    case False
    with Cons.prems have "x \<in> set ys" by simp
    then have "0 \<le> indexOf ys x" by (rule Cons.IH)
    with False show ?thesis by (simp add: Let_def)
  qed
qed

lemma indexOf_iff: "indexOf xs x \<noteq> - 1 \<longleftrightarrow> x \<in> set xs"
  using indexOf_notin[of x xs] indexOf_in[of x xs] by auto

lemma splice1_indexOf: "x \<in> set xs \<Longrightarrow> splice1 (indexOf xs x) xs = remove1 x xs"
proof (induction xs)
  case Nil
  then show ?case by simp
next
  case (Cons y ys)
  show ?case
  proof (cases "y = x")
    case True
    then show ?thesis by (simp add: splice1_def)
  next
    case False
    with Cons.prems have in_ys: "x \<in> set ys" by simp
    then have ge: "0 \<le> indexOf ys x" by (rule indexOf_in)
    then have "nat (indexOf ys x + 1) = Suc (nat (indexOf ys x))" by simp
    with False ge Cons.IH[OF in_ys] show ?thesis
      by (auto simp: splice1_def Let_def)
  qed
qed

text \<open>The guarded \<open>splice\<close> of removeTypeConverter removes the first occurrence, if any.\<close>

lemma removeFirst_remove1:
  "(if indexOf xs c \<noteq> - 1 then splice1 (indexOf xs c) xs else xs) = remove1 c xs"
proof (cases "c \<in> set xs")
  case True
  then show ?thesis by (simp add: indexOf_iff splice1_indexOf)
next
  case False
  then show ?thesis by (simp add: indexOf_notin remove1_idem)
qed

text \<open>Sorting with the comparison function of the class is the library's stable sort
  on the negated priority.\<close>

lemma insertBy_insort:
  "insertBy (comparePriority comps) x xs = insort_key (\<lambda>c. - priorityOr0 comps c) x xs"
  by (induction xs) (auto simp: comparePriority_def)

lemma arraySort_sort_key:
  "arraySort (comparePriority comps) xs = sort_key (\<lambda>c. - priorityOr0 comps c) xs"
  by (induction xs) (auto simp: arraySort_def insertBy_insort)

lemma remove1_sorted_key: "sorted (map f xs) \<Longrightarrow> sorted (map f (remove1 x xs))"
  by (induction xs) auto

lemma filter_remove1_comm: "filter P (remove1 x xs) = remove1 x (filter P xs)"
  by (induction xs) auto

subsection \<open>The registry\<close>

lemma registryInv_add:
  assumes "registryInv comps xs reg"
  shows "registryInv comps (arraySort (comparePriority comps) (xs @ [c])) (reg @ [c])"
  using assms by (simp add: registryInv_def arraySort_sort_key sort_key_stable)

lemma registryInv_remove:
  assumes "registryInv comps xs reg"
  shows "registryInv comps (remove1 c xs) (remove1 c reg)"
  using assms by (simp add: registryInv_def remove1_sorted_key filter_remove1_comm)

lemma typeNode_removeTypeConverter:
  "typeNodeConverters (removeTypeConverter cv c) = remove1 c (typeNodeConverters cv)"
  using removeFirst_remove1[of "typeNodeConverters cv" c]
  by (auto simp: removeTypeConverter_def Let_def split: if_splits)

lemma typeType_removeTypeConverter:
  "typeTypeConverters (removeTypeConverter cv c) = remove1 c (typeTypeConverters cv)"
  using removeFirst_remove1[of "typeTypeConverters cv" c]
  by (auto simp: removeTypeConverter_def Let_def split: if_splits)

lemma typeNode_addTypeConverter:
  "typeNodeConverters (addTypeConverter comps cv c) =
     (if hasNodeRole comps c then arraySort (comparePriority comps) (typeNodeConverters cv @ [c])
      else typeNodeConverters cv)"
  by (simp add: addTypeConverter_def Let_def hasNodeRole_def)

lemma typeType_addTypeConverter:
  "typeTypeConverters (addTypeConverter comps cv c) =
     (if hasTypeRole comps c then arraySort (comparePriority comps) (typeTypeConverters cv @ [c])
      else typeTypeConverters cv)"
  by (simp add: addTypeConverter_def Let_def hasTypeRole_def)

lemma registryInv_step_node:
  assumes "registryInv comps (typeNodeConverters cv) reg"
  shows "registryInv comps (typeNodeConverters (applyOp comps cv op))
           (registeredStep (hasNodeRole comps) reg op)"
proof (cases op)
  case (Register c)
  with assms show ?thesis by (simp add: typeNode_addTypeConverter registryInv_add)
next
  case (Unregister c)
  with assms show ?thesis by (simp add: typeNode_removeTypeConverter registryInv_remove)
next
  case Clear
  then show ?thesis by (simp add: removeAllComponents_def registryInv_def)
qed

lemma registryInv_step_type:
  assumes "registryInv comps (typeTypeConverters cv) reg"
  shows "registryInv comps (typeTypeConverters (applyOp comps cv op))
           (registeredStep (hasTypeRole comps) reg op)"
proof (cases op)
  case (Register c)
  with assms show ?thesis by (simp add: typeType_addTypeConverter registryInv_add)
next
  case (Unregister c)
  with assms show ?thesis by (simp add: typeType_removeTypeConverter registryInv_remove)
next
  case Clear
  then show ?thesis by (simp add: removeAllComponents_def registryInv_def)
qed

lemma registryInv_foldl_node:
  assumes "registryInv comps (typeNodeConverters cv) reg"
  shows "registryInv comps (typeNodeConverters (foldl (applyOp comps) cv ops))
           (foldl (registeredStep (hasNodeRole comps)) reg ops)"
  using assms
proof (induction ops arbitrary: cv reg)
  case Nil
  then show ?case by simp
next
  case (Cons op ops)
  from Cons.prems have "registryInv comps (typeNodeConverters (applyOp comps cv op))
           (registeredStep (hasNodeRole comps) reg op)"
    by (rule registryInv_step_node)
  then show ?case using Cons.IH by simp
qed

lemma registryInv_foldl_type:
  assumes "registryInv comps (typeTypeConverters cv) reg"
  shows "registryInv comps (typeTypeConverters (foldl (applyOp comps) cv ops))
           (foldl (registeredStep (hasTypeRole comps)) reg ops)"
  using assms
proof (induction ops arbitrary: cv reg)
  case Nil
  then show ?case by simp
next
  case (Cons op ops)
  from Cons.prems have "registryInv comps (typeTypeConverters (applyOp comps cv op))
           (registeredStep (hasTypeRole comps) reg op)"
    by (rule registryInv_step_type)
  then show ?case using Cons.IH by simp
qed

lemma registryInv_sortedDescending:
  "registryInv comps xs reg \<Longrightarrow> sortedDescending comps xs"
  by (simp add: registryInv_def sortedDescending_def sorted_map)

lemma registryInv_filter:
  assumes "registryInv comps xs reg"
  shows "filter (\<lambda>c. priorityOr0 comps c = p) xs = filter (\<lambda>c. priorityOr0 comps c = p) reg"
proof -
  from assms have "filter (\<lambda>c. - priorityOr0 comps c = - p) xs =
      filter (\<lambda>c. - priorityOr0 comps c = - p) reg"
    unfolding registryInv_def by blast
  then show ?thesis by simp
qed

text \<open>
  C6. After any sequence of registrations, removals and resets of type converters, both
  priority lists are sorted by descending priority (a missing priority counting as 0),
  and for every priority \<open>p\<close> the converters of priority \<open>p\<close> stand in a list in the
  order in which they were registered. (Array.prototype.sort is taken to be stable, as
  ECMAScript 2019 requires.)
\<close>

theorem priority_lists_sorted_and_stable:
  "sortedDescending comps (typeNodeConverters (runOps comps ops)) \<and>
   sortedDescending comps (typeTypeConverters (runOps comps ops)) \<and>
   filter (\<lambda>c. priorityOr0 comps c = p) (typeNodeConverters (runOps comps ops)) =
     filter (\<lambda>c. priorityOr0 comps c = p) (registrationOrder (hasNodeRole comps) ops) \<and>
   filter (\<lambda>c. priorityOr0 comps c = p) (typeTypeConverters (runOps comps ops)) =
     filter (\<lambda>c. priorityOr0 comps c = p) (registrationOrder (hasTypeRole comps) ops)"
proof -
  have n0: "registryInv comps (typeNodeConverters initialize) []"
    by (simp add: registryInv_def initialize_def)
  have t0: "registryInv comps (typeTypeConverters initialize) []"
    by (simp add: registryInv_def initialize_def)
  have n: "registryInv comps (typeNodeConverters (runOps comps ops))
             (registrationOrder (hasNodeRole comps) ops)"
    unfolding runOps_def registrationOrder_def using n0 by (rule registryInv_foldl_node)
  have t: "registryInv comps (typeTypeConverters (runOps comps ops))
             (registrationOrder (hasTypeRole comps) ops)"
    unfolding runOps_def registrationOrder_def using t0 by (rule registryInv_foldl_type)
  show ?thesis
    using n t by (simp add: registryInv_sortedDescending registryInv_filter)
qed

text \<open>
  Five operations on the components of the small conversion: 11 (no priority) is
  registered before 10 and 12 (priority 5), 10 is removed and registered again.
\<close>

theorem priority_lists_sorted_and_stable_witness:
  "typeNodeConverters
     (runOps demoComponents [Register 11, Register 10, Register 12, Unregister 10, Register 10])
     = [10, 11] \<and>
   typeTypeConverters
     (runOps demoComponents [Register 11, Register 10, Register 12, Unregister 10, Register 10])
     = [12, 11] \<and>
   sortedDescending demoComponents (typeNodeConverters
     (runOps demoComponents [Register 11, Register 10, Register 12, Unregister 10, Register 10])) \<and>
   sortedDescending demoComponents (typeTypeConverters
     (runOps demoComponents [Register 11, Register 10, Register 12, Unregister 10, Register 10])) \<and>
   filter (\<lambda>c. priorityOr0 demoComponents c = 0) (typeNodeConverters
     (runOps demoComponents [Register 11, Register 10, Register 12, Unregister 10, Register 10])) =
     filter (\<lambda>c. priorityOr0 demoComponents c = 0) (registrationOrder (hasNodeRole demoComponents)
       [Register 11, Register 10, Register 12, Unregister 10, Register 10]) \<and>
   filter (\<lambda>c. priorityOr0 demoComponents c = 0) (typeTypeConverters
     (runOps demoComponents [Register 11, Register 10, Register 12, Unregister 10, Register 10])) =
     filter (\<lambda>c. priorityOr0 demoComponents c = 0) (registrationOrder (hasTypeRole demoComponents)
       [Register 11, Register 10, Register 12, Unregister 10, Register 10])"
proof -
  have a: "typeNodeConverters
     (runOps demoComponents [Register 11, Register 10, Register 12, Unregister 10, Register 10])
     = [10, 11]"
    by code_simp
  have b: "typeTypeConverters
     (runOps demoComponents [Register 11, Register 10, Register 12, Unregister 10, Register 10])
     = [12, 11]"
    by code_simp
  from a b show ?thesis
    using priority_lists_sorted_and_stable[of demoComponents
        "[Register 11, Register 10, Register 12, Unregister 10, Register 10]" 0]
    by blast
qed

subsection \<open>convertNode\<close>

text \<open>Steps that write nothing but reflections.\<close>

lemma reflectionsOnly_refl: "reflectionsOnly s s"
  by (simp add: reflectionsOnly_def)

lemma reflectionsOnly_update: "reflectionsOnly s (updateReflection r f s)"
  by (simp add: reflectionsOnly_def updateReflection_def)

lemma reflectionsOnly_trans:
  assumes "reflectionsOnly s s1" and "reflectionsOnly s1 s2"
  shows "reflectionsOnly s s2"
proof -
  from assms have "s2 = (s\<lparr>reflections := reflections s1\<rparr>)\<lparr>reflections := reflections s2\<rparr>"
    unfolding reflectionsOnly_def by metis
  then show ?thesis by (simp add: reflectionsOnly_def)
qed

lemma reflectionsOnly_fields:
  assumes "reflectionsOnly s s'"
  shows "calls s' = calls s" and "visitStack s' = visitStack s" and "nodeArrays s' = nodeArrays s"
    and "nextAddr s' = nextAddr s" and "strArrays s' = strArrays s"
proof -
  from assms have eq: "s' = s\<lparr>reflections := reflections s'\<rparr>"
    by (simp add: reflectionsOnly_def)
  show "calls s' = calls s" by (subst eq) simp
  show "visitStack s' = visitStack s" by (subst eq) simp
  show "nodeArrays s' = nodeArrays s" by (subst eq) simp
  show "nextAddr s' = nextAddr s" by (subst eq) simp
  show "strArrays s' = strArrays s" by (subst eq) simp
qed

lemma reflectionsOnly_foldl:
  "reflectionsOnly s (foldl (\<lambda>st t. if P t then updateReflection r f st else st) s ts)"
proof (induction ts arbitrary: s)
  case Nil
  show ?case by (simp add: reflectionsOnly_refl)
next
  case (Cons t ts)
  show ?case
  proof (cases "P t")
    case True
    have "reflectionsOnly (updateReflection r f s)
            (foldl (\<lambda>st t. if P t then updateReflection r f st else st) (updateReflection r f s) ts)"
      by (rule Cons.IH)
    with reflectionsOnly_update[of s r f] have
      "reflectionsOnly s
         (foldl (\<lambda>st t. if P t then updateReflection r f st else st) (updateReflection r f s) ts)"
      by (rule reflectionsOnly_trans)
    with True show ?thesis by simp
  next
    case False
    with Cons.IH[of s] show ?thesis by simp
  qed
qed

lemma reflectionsOnly_markComponent: "reflectionsOnly s (markComponent env r s)"
proof -
  let ?s1 = "(case extendedTypes (reflections s r) of
           None \<Rightarrow> s
         | Some ts \<Rightarrow>
             foldl (\<lambda>st t. if toLowerCase (typeToString env t) = ''component''
                            then updateReflection r (\<lambda>x. x\<lparr>kind := CoveoComponent\<rparr>) st else st) s ts)"
  have a: "reflectionsOnly s ?s1"
    by (cases "extendedTypes (reflections s r)")
       (simp_all add: reflectionsOnly_refl reflectionsOnly_foldl)
  have b: "reflectionsOnly ?s1 (markComponent env r s)"
    unfolding markComponent_def Let_def
    by (cases "implementedTypes (reflections ?s1 r)")
       (simp_all add: reflectionsOnly_refl reflectionsOnly_foldl)
  from a b show ?thesis by (rule reflectionsOnly_trans)
qed

lemma reflectionsOnly_applyNotSupportedIn:
  "applyNotSupportedIn env r cm s = Inr s' \<Longrightarrow> reflectionsOnly s s'"
  by (auto simp: applyNotSupportedIn_def Let_def reflectionsOnly_update split: option.splits)

lemma postProcess_None:
  "postProcess env nd None s =
     (case getRawComment env nd of Inl e \<Rightarrow> Inl e | Inr c \<Rightarrow> Inr (None, s))"
  by (simp add: postProcess_def split: sum.splits)

lemma postProcess_Inr:
  assumes "postProcess env nd result s = Inr (result', s')"
  shows "result' = result \<and> reflectionsOnly s s'"
proof -
  from assms obtain rawComment where raw: "getRawComment env nd = Inr rawComment"
    by (auto simp: postProcess_def split: sum.splits)
  show ?thesis
  proof (cases result)
    case None
    with assms raw show ?thesis by (simp add: postProcess_def reflectionsOnly_refl)
  next
    case (Some r)
    let ?first = "(case rawComment of
                      None \<Rightarrow> Inr s
                    | Some cm \<Rightarrow>
                        if strIndexOf cm ''@notSupportedIn'' \<noteq> - 1
                        then applyNotSupportedIn env r cm s else Inr s)"
    from assms Some raw obtain s1 where s1: "?first = Inr s1"
      by (auto simp: postProcess_def Let_def split: sum.splits)
    then have r1: "reflectionsOnly s s1"
      by (auto simp: reflectionsOnly_refl reflectionsOnly_applyNotSupportedIn
          split: option.splits if_splits)
    let ?s2 = "(case rawComment of
                            None \<Rightarrow> s1
                          | Some cm \<Rightarrow>
                              if strIndexOf cm ''@componentOptions'' \<noteq> - 1
                              then updateReflection r
                                     (\<lambda>x. x\<lparr>flags := insert CoveoComponentOptions (flags x)\<rparr>) s1
                              else s1)"
    have r2: "reflectionsOnly s1 ?s2"
      by (auto simp: reflectionsOnly_refl reflectionsOnly_update split: option.splits)
    let ?s3 = "(if isDeclarationReflection (reflections ?s2 r) then markComponent env r ?s2 else ?s2)"
    have r3: "reflectionsOnly ?s2 ?s3"
      by (simp add: reflectionsOnly_refl reflectionsOnly_markComponent)
    from assms Some raw s1 have res: "result' = result" and s': "s' = ?s3"
      by (simp_all add: postProcess_def Let_def)
    from r1 r2 r3 have "reflectionsOnly s ?s3"
      by (blast intro: reflectionsOnly_trans)
    with res s' show ?thesis by simp
  qed
qed

text \<open>convertNode past the cycle guard: the handler runs in \<open>enteredState s nd\<close>.\<close>

lemma enteredState_eq:
  "enteredState s nd =
     s\<lparr>nodeArrays := (nodeArrays s)(nextAddr s := nodeArrays s (visitStack s) @ [nd]),
       nextAddr := Suc (nextAddr s), visitStack := nextAddr s\<rparr>"
  by (simp add: enteredState_def slice_def push_def Let_def)

lemma convertNode_unfold:
  assumes "indexOf (nodeArrays s (visitStack s)) nd = - 1"
  shows "convertNode env cv s nd =
    (case runHandler env cv (enteredState s nd) nd of
       Inl e \<Rightarrow> Inl e
     | Inr (result, s4) \<Rightarrow> postProcess env nd result (s4\<lparr>visitStack := visitStack s\<rparr>))"
  using assms by (simp add: convertNode_def Let_def)

lemma callMethod_Inr:
  assumes "callMethod m ev s = Inr (x, s')"
  shows "\<exists>s0. m s = Inr (x, s0) \<and> s' = s0\<lparr>calls := calls s @ [ev x]\<rparr>"
  using assms by (auto simp: callMethod_def split: sum.splits)

lemma convertNode_cases:
  assumes "convertNode env cv s nd = Inr (result, s')"
  shows "(nd \<in> set (nodeArrays s (visitStack s)) \<and> result = None \<and> s' = s) \<or>
         (nd \<notin> set (nodeArrays s (visitStack s)) \<and>
          (\<exists>s4. runHandler env cv (enteredState s nd) nd = Inr (result, s4) \<and>
             postProcess env nd result (s4\<lparr>visitStack := visitStack s\<rparr>) = Inr (result, s')))"
proof (cases "indexOf (nodeArrays s (visitStack s)) nd = - 1")
  case False
  with assms show ?thesis by (simp add: convertNode_def indexOf_iff)
next
  case True
  then have notin: "nd \<notin> set (nodeArrays s (visitStack s))"
    using indexOf_iff[of "nodeArrays s (visitStack s)" nd] by simp
  from assms True have "(case runHandler env cv (enteredState s nd) nd of Inl e \<Rightarrow> Inl e
     | Inr (result, s4) \<Rightarrow> postProcess env nd result (s4\<lparr>visitStack := visitStack s\<rparr>))
       = Inr (result, s')"
    by (simp add: convertNode_unfold)
  then obtain r4 s4 where h: "runHandler env cv (enteredState s nd) nd = Inr (r4, s4)"
    and pp: "postProcess env nd r4 (s4\<lparr>visitStack := visitStack s\<rparr>) = Inr (result, s')"
    by (auto split: sum.splits)
  from pp have "result = r4" using postProcess_Inr by blast
  with h pp notin show ?thesis by auto
qed

text \<open>
  C5, as the code has it. convertNode returns absence, and throws nothing, when the node
  is already in the visit stack of the context: the call returns at once with the state
  as it was, so that no collaborator has been called, the handler of the node included.
  When no handler is registered for the kind of the node the call returns absence too,
  having logged no call and changed neither the visit stack of the context nor a
  reflection, provided that reading the raw comment of the node (line 319) throws
  nothing; when that call throws, for a node outside the visit stack, convertNode throws
  what it threw.
\<close>

theorem convertNode_traversal_gaps:
  "(nd \<in> set (nodeArrays s (visitStack s)) \<longrightarrow> convertNode env cv s nd = Inr (None, s)) \<and>
   (map_of (nodeConverters cv) (nodeKind env nd) = None \<and> \<not> isl (getRawComment env nd) \<longrightarrow>
      (\<exists>s'. convertNode env cv s nd = Inr (None, s') \<and> calls s' = calls s \<and>
            visitStack s' = visitStack s \<and> reflections s' = reflections s)) \<and>
   (map_of (nodeConverters cv) (nodeKind env nd) = None \<and>
    nd \<notin> set (nodeArrays s (visitStack s)) \<and> isl (getRawComment env nd) \<longrightarrow>
      convertNode env cv s nd = Inl (projl (getRawComment env nd)))"
proof (intro conjI impI)
  assume "nd \<in> set (nodeArrays s (visitStack s))"
  then have "indexOf (nodeArrays s (visitStack s)) nd \<noteq> - 1" by (simp add: indexOf_iff)
  then show "convertNode env cv s nd = Inr (None, s)" by (simp add: convertNode_def)
next
  assume a: "map_of (nodeConverters cv) (nodeKind env nd) = None \<and> \<not> isl (getRawComment env nd)"
  then obtain c where raw: "getRawComment env nd = Inr c"
    by (cases "getRawComment env nd") auto
  show "\<exists>s'. convertNode env cv s nd = Inr (None, s') \<and> calls s' = calls s \<and>
            visitStack s' = visitStack s \<and> reflections s' = reflections s"
  proof (cases "indexOf (nodeArrays s (visitStack s)) nd = - 1")
    case True
    with a raw show ?thesis
      by (simp add: convertNode_def runHandler_def enteredState_eq Let_def postProcess_None)
  next
    case False
    then show ?thesis by (simp add: convertNode_def)
  qed
next
  assume a: "map_of (nodeConverters cv) (nodeKind env nd) = None \<and>
    nd \<notin> set (nodeArrays s (visitStack s)) \<and> isl (getRawComment env nd)"
  then obtain e where raw: "getRawComment env nd = Inl e"
    by (cases "getRawComment env nd") auto
  from a have "indexOf (nodeArrays s (visitStack s)) nd = - 1" by (simp add: indexOf_notin)
  with a raw show "convertNode env cv s nd = Inl (projl (getRawComment env nd))"
    by (simp add: convertNode_def runHandler_def Let_def postProcess_None)
qed

lemma demoConverter_eq:
  "demoConverter =
     \<lparr>nodeConverters = [(7, 1), (8, 1), (9, 2), (10, 3)], typeNodeConverters = [10, 11],
      typeTypeConverters = [12, 11]\<rparr>"
  by code_simp

lemma demo_nodeKind:
  "nodeKind demoEnv n =
     (if n = 1 \<or> n = 4 then 7 else if n = 3 then 8 else if n = 2 then 9
      else if n = 7 then 10 else 0)"
  by (simp add: demoEnv_def demoEnvWith_def)

text \<open>
  Node 4 is in the visit stack of the small conversion and its kind has a handler,
  component 1, which is not called: the log stays empty and the result is absence, while
  the same handler, called for node 1, returns the reflection 5. Node 6 has kind 0, which
  no component handles, and no comment. Node 9 has kind 0 as well, and reading its
  raw comment throws.
\<close>

theorem convertNode_traversal_gaps_witness:
  "4 \<in> set (nodeArrays demoState (visitStack demoState)) \<and>
   map_of (nodeConverters demoConverter) (nodeKind demoEnv 4) = Some 1 \<and>
   convertNode demoEnv demoConverter demoState 4 = Inr (None, demoState) \<and>
   calls demoState = [] \<and>
   calls (snd (projr (convertNode demoEnv demoConverter demoState 1))) = [NodeConvert 1 1 (Some 5)] \<and>
   map_of (nodeConverters demoConverter) (nodeKind demoEnv 6) = None \<and>
   \<not> isl (getRawComment demoEnv 6) \<and>
   (\<exists>s'. convertNode demoEnv demoConverter demoState 6 = Inr (None, s') \<and>
         calls s' = calls demoState \<and> visitStack s' = visitStack demoState \<and>
         reflections s' = reflections demoState) \<and>
   map_of (nodeConverters demoConverter) (nodeKind demoEnv 9) = None \<and>
   9 \<notin> set (nodeArrays demoState (visitStack demoState)) \<and>
   getRawComment demoEnv 9 = Inl TypeError \<and>
   convertNode demoEnv demoConverter demoState 9 = Inl TypeError"
proof -
  have h1: "4 \<in> set (nodeArrays demoState (visitStack demoState))"
    by (simp add: demoState_def)
  have k4: "map_of (nodeConverters demoConverter) (nodeKind demoEnv 4) = Some 1"
    by (simp add: demoConverter_eq demo_nodeKind)
  have l0: "calls demoState = []" by (simp add: demoState_def)
  have l1: "calls (snd (projr (convertNode demoEnv demoConverter demoState 1))) =
      [NodeConvert 1 1 (Some 5)]"
    by code_simp
  have h2: "map_of (nodeConverters demoConverter) (nodeKind demoEnv 6) = None"
    by (simp add: demoConverter_eq demo_nodeKind)
  have h3: "\<not> isl (getRawComment demoEnv 6)"
    by (simp add: demoEnv_def demoEnvWith_def)
  have h4: "map_of (nodeConverters demoConverter) (nodeKind demoEnv 9) = None"
    by (simp add: demoConverter_eq demo_nodeKind)
  have h5: "9 \<notin> set (nodeArrays demoState (visitStack demoState))"
    by (simp add: demoState_def)
  have h6: "getRawComment demoEnv 9 = Inl TypeError"
    by (simp add: demoEnv_def demoEnvWith_def)
  from h4 h5 h6 have t9: "convertNode demoEnv demoConverter demoState 9 = Inl TypeError"
    using convertNode_traversal_gaps[where nd = 9 and s = demoState and env = demoEnv
        and cv = demoConverter]
    by simp
  from h1 k4 l0 l1 h2 h3 have
    "convertNode demoEnv demoConverter demoState 4 = Inr (None, demoState) \<and>
     (\<exists>s'. convertNode demoEnv demoConverter demoState 6 = Inr (None, s') \<and>
         calls s' = calls demoState \<and> visitStack s' = visitStack demoState \<and>
         reflections s' = reflections demoState)"
    using convertNode_traversal_gaps[where nd = 4 and s = demoState and env = demoEnv
        and cv = demoConverter]
      convertNode_traversal_gaps[where nd = 6 and s = demoState and env = demoEnv
        and cv = demoConverter]
    by blast
  with h1 k4 l0 l1 h2 h3 h4 h5 h6 t9 show ?thesis by (intro conjI) (elim conjE, assumption)+
qed

text \<open>
  C5 as the specification states it fails: node 9 of the small conversion is not in the
  visit stack, no handler is registered for its kind, and convertNode throws the
  TypeError that reading its raw comment throws.
\<close>

theorem convertNode_no_handler_throws:
  "9 \<notin> set (nodeArrays demoState (visitStack demoState)) \<and>
   map_of (nodeConverters demoConverter) (nodeKind demoEnv 9) = None \<and>
   isl (getRawComment demoEnv 9) \<and>
   isl (convertNode demoEnv demoConverter demoState 9) \<and>
   projl (convertNode demoEnv demoConverter demoState 9) = TypeError"
  by code_simp


text \<open>
  The handler of component 2 converts the node it was given once more: the inner call
  finds the node in the visit stack and returns absence, and so does the outer one.
\<close>

lemma demo_self_reference:
  "\<not> isl (convertNode demoEnv demoConverter demoState 2) \<and>
   fst (projr (convertNode demoEnv demoConverter demoState 2)) = None \<and>
   calls (snd (projr (convertNode demoEnv demoConverter demoState 2))) = [NodeConvert 2 2 None]"
  by code_simp

text \<open>
  What convertNode writes to the store of arrays is the copy it makes: an array that was
  allocated before the call holds after the call what it held before, when the handler
  leaves it alone. A handler that calls convertNode for the children of its node is such
  a handler, by this very lemma.
\<close>

lemma convertNode_frame:
  assumes ret: "convertNode env cv s nd = Inr (result, s')"
    and alloc: "a < nextAddr s"
    and h: "\<forall>c st r st'. map_of (nodeConverters cv) (nodeKind env nd) = Some c \<and>
               a < nextAddr st \<and> nc_convert (components env c) st nd = Inr (r, st') \<longrightarrow>
               nodeArrays st' a = nodeArrays st a"
  shows "nodeArrays s' a = nodeArrays s a"
proof -
  from convertNode_cases[OF ret]
  consider (guard) "s' = s"
    | (run) s4 where "runHandler env cv (enteredState s nd) nd = Inr (result, s4)"
        "postProcess env nd result (s4\<lparr>visitStack := visitStack s\<rparr>) = Inr (result, s')"
    by blast
  then show ?thesis
  proof cases
    case guard
    then show ?thesis by simp
  next
    case run
    from run(2) have ro: "reflectionsOnly (s4\<lparr>visitStack := visitStack s\<rparr>) s'"
      using postProcess_Inr by blast
    have na: "nodeArrays s' = nodeArrays s4"
      using reflectionsOnly_fields(3)[OF ro] by simp
    from alloc have s3: "nodeArrays (enteredState s nd) a = nodeArrays s a"
      and alloc3: "a < nextAddr (enteredState s nd)"
      by (simp_all add: enteredState_eq)
    have "nodeArrays s4 a = nodeArrays s a"
    proof (cases "map_of (nodeConverters cv) (nodeKind env nd)")
      case None
      with run(1) have "s4 = enteredState s nd" by (simp add: runHandler_def)
      with s3 show ?thesis by simp
    next
      case (Some c)
      with run(1) obtain s0
        where c0: "nc_convert (components env c) (enteredState s nd) nd = Inr (result, s0)"
          and s4: "s4 = s0\<lparr>calls := calls (enteredState s nd) @ [NodeConvert c nd result]\<rparr>"
        using callMethod_Inr[of "\<lambda>st. nc_convert (components env c) st nd" "NodeConvert c nd"
            "enteredState s nd" result s4]
        by (auto simp: runHandler_def)
      from h Some alloc3 c0 have "nodeArrays s0 a = nodeArrays (enteredState s nd) a"
        by blast
      with s3 s4 show ?thesis by simp
    qed
    with na show ?thesis by simp
  qed
qed

lemma convertNode_visitStack:
  assumes "convertNode env cv s nd = Inr (result, s')"
  shows "visitStack s' = visitStack s"
proof -
  from convertNode_cases[OF assms]
  consider (guard) "s' = s"
    | (run) s4 where "postProcess env nd result (s4\<lparr>visitStack := visitStack s\<rparr>) = Inr (result, s')"
    by blast
  then show ?thesis
  proof cases
    case guard
    then show ?thesis by simp
  next
    case run
    then have "reflectionsOnly (s4\<lparr>visitStack := visitStack s\<rparr>) s'"
      using postProcess_Inr by blast
    from reflectionsOnly_fields(2)[OF this] show ?thesis by simp
  qed
qed

text \<open>
  C7. When convertNode returns, the context refers to the visit stack it referred to
  before the call. That array holds what it held before, the node having been pushed onto
  a copy, as long as the array was allocated before the call and the handler of the node,
  run in a state where the array is allocated, does not itself write the array.
\<close>

theorem convertNode_restores_visitStack:
  assumes ret: "convertNode env cv s nd = Inr (result, s')"
  shows "visitStack s' = visitStack s \<and>
         (visitStack s < nextAddr s \<and>
          (\<forall>c st r st'. map_of (nodeConverters cv) (nodeKind env nd) = Some c \<and>
               visitStack s < nextAddr st \<and>
               nc_convert (components env c) st nd = Inr (r, st') \<longrightarrow>
               nodeArrays st' (visitStack s) = nodeArrays st (visitStack s))
          \<longrightarrow> nodeArrays s' (visitStack s) = nodeArrays s (visitStack s))"
proof (intro conjI impI)
  show "visitStack s' = visitStack s" using ret by (rule convertNode_visitStack)
next
  assume a: "visitStack s < nextAddr s \<and>
          (\<forall>c st r st'. map_of (nodeConverters cv) (nodeKind env nd) = Some c \<and>
               visitStack s < nextAddr st \<and>
               nc_convert (components env c) st nd = Inr (r, st') \<longrightarrow>
               nodeArrays st' (visitStack s) = nodeArrays st (visitStack s))"
  then have alloc: "visitStack s < nextAddr s"
    and h: "\<forall>c st r st'. map_of (nodeConverters cv) (nodeKind env nd) = Some c \<and>
               visitStack s < nextAddr st \<and>
               nc_convert (components env c) st nd = Inr (r, st') \<longrightarrow>
               nodeArrays st' (visitStack s) = nodeArrays st (visitStack s)"
    by blast+
  from ret alloc h show "nodeArrays s' (visitStack s) = nodeArrays s (visitStack s)"
    by (rule convertNode_frame)
qed

lemma demo_handler1: "map_of (nodeConverters demoConverter) (nodeKind demoEnv 1) = Some 1"
  by (simp add: demoConverter_eq demo_nodeKind)

lemma demo_convert1:
  "nc_convert (components demoEnv 1) st nd =
     Inr (Some 5, st\<lparr>projectReflections := projectReflections st @ [(5, True, 5)]\<rparr>)"
  by (simp add: demoEnv_def demoEnvWith_def demoComponents_def emptyComponent_def)

lemma demo_handler3: "map_of (nodeConverters demoConverter) (nodeKind demoEnv 7) = Some 3"
  by (simp add: demoConverter_eq demo_nodeKind)

lemma demo_convert3:
  "nc_convert (components demoEnv 3) st nd =
     (case convertNode demoBaseEnv initialize st 8 of
        Inl e \<Rightarrow> Inl e
      | Inr (child, st') \<Rightarrow> Inr (Some 6, st'))"
  by (simp add: demoEnv_def demoEnvWith_def demoComponents_def emptyComponent_def)

lemma projr_eq: "\<not> isl x \<Longrightarrow> x = Inr (fst (projr x), snd (projr x))"
  by (cases x) auto

text \<open>
  Node 7 of the small conversion, while the visit stack of the context is the array 1,
  which holds node 4. convertNode pushes node 7 onto the copy 2; the handler converts the
  child 8, which is pushed onto the copy 3 of the array 2. After the call the context
  refers to the array 1 again, and the array holds node 4 and nothing else.
\<close>

theorem convertNode_restores_visitStack_witness:
  "\<not> isl (convertNode demoEnv demoConverter demoState 7) \<and>
   visitStack demoState = 1 \<and> nextAddr demoState = 2 \<and> nodeArrays demoState 1 = [4] \<and>
   visitStack (snd (projr (convertNode demoEnv demoConverter demoState 7))) = visitStack demoState \<and>
   nodeArrays (snd (projr (convertNode demoEnv demoConverter demoState 7))) (visitStack demoState)
     = nodeArrays demoState (visitStack demoState) \<and>
   nodeArrays (snd (projr (convertNode demoEnv demoConverter demoState 7))) 2 = [4, 7] \<and>
   nodeArrays (snd (projr (convertNode demoEnv demoConverter demoState 7))) 3 = [4, 7, 8]"
proof -
  let ?X = "convertNode demoEnv demoConverter demoState 7"
  have ok: "\<not> isl ?X" by code_simp
  then have eq: "?X = Inr (fst (projr ?X), snd (projr ?X))" by (rule projr_eq)
  have st: "visitStack demoState = 1" "nextAddr demoState = 2" "nodeArrays demoState 1 = [4]"
    by (simp_all add: demoState_def)
  then have alloc: "visitStack demoState < nextAddr demoState" by simp
  have frame: "\<forall>c st r st'. map_of (nodeConverters demoConverter) (nodeKind demoEnv 7) = Some c \<and>
               visitStack demoState < nextAddr st \<and>
               nc_convert (components demoEnv c) st 7 = Inr (r, st') \<longrightarrow>
               nodeArrays st' (visitStack demoState) = nodeArrays st (visitStack demoState)"
  proof (intro allI impI, elim conjE)
    fix c :: cref and st st' :: "unit state" and r :: "rref option"
    assume "map_of (nodeConverters demoConverter) (nodeKind demoEnv 7) = Some c"
      and al: "visitStack demoState < nextAddr st"
      and run: "nc_convert (components demoEnv c) st 7 = Inr (r, st')"
    with demo_handler3 have "c = 3" by simp
    with run demo_convert3[of st 7] obtain child
      where inner: "convertNode demoBaseEnv initialize st 8 = Inr (child, st')"
      by (auto split: sum.splits)
    have none: "\<forall>c st r st'. map_of (nodeConverters initialize) (nodeKind demoBaseEnv 8) = Some c \<and>
               visitStack demoState < nextAddr st \<and>
               nc_convert (components demoBaseEnv c) st 8 = Inr (r, st') \<longrightarrow>
               nodeArrays st' (visitStack demoState) = nodeArrays st (visitStack demoState)"
      by (simp add: initialize_def)
    from inner al none
    show "nodeArrays st' (visitStack demoState) = nodeArrays st (visitStack demoState)"
      by (rule convertNode_frame)
  qed
  have copies: "nodeArrays (snd (projr ?X)) 2 = [4, 7]" "nodeArrays (snd (projr ?X)) 3 = [4, 7, 8]"
    by code_simp+
  from convertNode_restores_visitStack[OF eq] ok alloc frame st copies show ?thesis by simp
qed

subsection \<open>The component category\<close>

lemma startsWith_iff: "startsWith s pat \<longleftrightarrow> (\<exists>post. s = pat @ post)"
proof
  assume "startsWith s pat"
  then have "s = pat @ drop (length pat) s"
    unfolding startsWith_def by (metis append_take_drop_id)
  then show "\<exists>post. s = pat @ post" ..
next
  assume "\<exists>post. s = pat @ post"
  then show "startsWith s pat" by (auto simp: startsWith_def)
qed

text \<open>\<open>s.indexOf(pat) >= 0\<close> says that \<open>pat\<close> is a substring of \<open>s\<close>.\<close>

lemma strIndexOf_ge_minus1: "- 1 \<le> strIndexOf s pat"
  by (induction s) (auto simp: Let_def)

lemma strIndexOf_contains: "0 \<le> strIndexOf s pat \<longleftrightarrow> (\<exists>pre post. s = pre @ pat @ post)"
proof (induction s)
  case Nil
  then show ?case by auto
next
  case (Cons c cs)
  show ?case
  proof (cases "startsWith (c # cs) pat")
    case True
    then obtain post where "c # cs = [] @ pat @ post" by (auto simp: startsWith_iff)
    then have "\<exists>pre post. c # cs = pre @ pat @ post" by blast
    with True show ?thesis by simp
  next
    case False
    have ge: "- 1 \<le> strIndexOf cs pat" by (rule strIndexOf_ge_minus1)
    have "(\<exists>pre post. c # cs = pre @ pat @ post) \<longleftrightarrow> (\<exists>pre post. cs = pre @ pat @ post)"
    proof
      assume "\<exists>pre post. c # cs = pre @ pat @ post"
      then obtain pre post where e: "c # cs = pre @ pat @ post" by blast
      show "\<exists>pre post. cs = pre @ pat @ post"
      proof (cases pre)
        case Nil
        with e have "startsWith (c # cs) pat" by (auto simp: startsWith_iff)
        with False show ?thesis by simp
      next
        case (Cons p pre')
        with e have "cs = pre' @ pat @ post" by simp
        then show ?thesis by blast
      qed
    next
      assume "\<exists>pre post. cs = pre @ pat @ post"
      then obtain pre post where "cs = pre @ pat @ post" by blast
      then have "c # cs = (c # pre) @ pat @ post" by simp
      then show "\<exists>pre post. c # cs = pre @ pat @ post" by blast
    qed
    with False Cons.IH ge show ?thesis by (auto simp: Let_def)
  qed
qed

lemma foldl_mark_reflection:
  "reflections (foldl (\<lambda>st t. if P t then updateReflection r (\<lambda>x. x\<lparr>kind := K\<rparr>) st else st) s ts) r =
     (if \<exists>t\<in>set ts. P t then (reflections s r)\<lparr>kind := K\<rparr> else reflections s r)"
proof (induction ts arbitrary: s)
  case Nil
  show ?case by simp
next
  case (Cons t ts)
  show ?case
  proof (cases "P t")
    case True
    have "reflections (updateReflection r (\<lambda>x. x\<lparr>kind := K\<rparr>) s) r = (reflections s r)\<lparr>kind := K\<rparr>"
      by (simp add: updateReflection_def)
    with True Cons.IH[of "updateReflection r (\<lambda>x. x\<lparr>kind := K\<rparr>) s"] show ?thesis by simp
  next
    case False
    with Cons.IH[of s] show ?thesis by simp
  qed
qed

lemma markComponent_reflection:
  "reflections (markComponent env r s) r =
     (if namedComponent env (reflections s r)
      then (reflections s r)\<lparr>kind := CoveoComponent\<rparr> else reflections s r)"
proof -
  let ?s1 = "(case extendedTypes (reflections s r) of
           None \<Rightarrow> s
         | Some ts \<Rightarrow>
             foldl (\<lambda>st t. if toLowerCase (typeToString env t) = ''component''
                            then updateReflection r (\<lambda>x. x\<lparr>kind := CoveoComponent\<rparr>) st else st) s ts)"
  have one: "reflections ?s1 r =
     (if extendsComponent env (reflections s r)
      then (reflections s r)\<lparr>kind := CoveoComponent\<rparr> else reflections s r)"
    by (cases "extendedTypes (reflections s r)")
       (simp_all add: extendsComponent_def foldl_mark_reflection list_ex_iff)
  then have impls: "implementedTypes (reflections ?s1 r) = implementedTypes (reflections s r)"
    by simp
  have two: "reflections (markComponent env r s) r =
     (if implementsBindings env (reflections s r)
      then (reflections ?s1 r)\<lparr>kind := CoveoComponent\<rparr> else reflections ?s1 r)"
    unfolding markComponent_def Let_def impls
    by (cases "implementedTypes (reflections s r)")
       (simp_all add: implementsBindings_def foldl_mark_reflection list_ex_iff)
  from one two show ?thesis by (simp add: namedComponent_def)
qed

lemma postProcess_Some:
  assumes "postProcess env nd (Some r) s = Inr (result, s')"
  shows "\<exists>s2. s' = (if isDeclarationReflection (reflections s2 r) then markComponent env r s2 else s2)"
  using assms by (auto simp: postProcess_def Let_def split: sum.splits)

text \<open>
  C9. When convertNode returns a declaration reflection of which a recorded extended type
  renders, in lower case, as \<open>component\<close>, or a recorded implemented type renders, in
  lower case, as a text that contains \<open>icomponentbindings\<close>, the kind of the reflection
  is the component category. Of a type, only the text \<open>toString\<close> renders is read.
\<close>

theorem convertNode_component_kind:
  assumes ret: "convertNode env cv s nd = Inr (Some r, s')"
    and decl: "isDeclarationReflection (reflections s' r)"
    and named:
      "(\<exists>ts t. extendedTypes (reflections s' r) = Some ts \<and> t \<in> set ts \<and>
               toLowerCase (typeToString env t) = ''component'') \<or>
       (\<exists>impls i pre post. implementedTypes (reflections s' r) = Some impls \<and> i \<in> set impls \<and>
               toLowerCase (typeToString env i) = pre @ ''icomponentbindings'' @ post)"
  shows "kind (reflections s' r) = CoveoComponent"
proof -
  from named have nc: "namedComponent env (reflections s' r)"
    unfolding namedComponent_def extendsComponent_def implementsBindings_def
    by (auto simp: list_ex_iff strIndexOf_contains)
  from convertNode_cases[OF ret] obtain s4
    where "postProcess env nd (Some r) (s4\<lparr>visitStack := visitStack s\<rparr>) = Inr (Some r, s')"
    by auto
  then obtain s2
    where s': "s' = (if isDeclarationReflection (reflections s2 r) then markComponent env r s2 else s2)"
    using postProcess_Some by blast
  show ?thesis
  proof (cases "isDeclarationReflection (reflections s2 r)")
    case False
    with s' decl show ?thesis by simp
  next
    case True
    with s' have eq: "reflections s' r =
       (if namedComponent env (reflections s2 r)
        then (reflections s2 r)\<lparr>kind := CoveoComponent\<rparr> else reflections s2 r)"
      by (simp add: markComponent_reflection)
    then have "namedComponent env (reflections s' r) = namedComponent env (reflections s2 r)"
      by (simp add: namedComponent_def extendsComponent_def implementsBindings_def)
    with nc eq show ?thesis by simp
  qed
qed

lemma demo_convertNode1:
  "\<not> isl (convertNode demoEnv demoConverter demoState 1) \<and>
   fst (projr (convertNode demoEnv demoConverter demoState 1)) = Some 5"
  by code_simp

text \<open>
  Reflection 5 of the small conversion extends the types 1 and 0; type 0 renders as
  \<open>Component\<close>.
\<close>

theorem convertNode_component_kind_witness:
  "\<not> isl (convertNode demoEnv demoConverter demoState 1) \<and>
   fst (projr (convertNode demoEnv demoConverter demoState 1)) = Some 5 \<and>
   isDeclarationReflection (reflections (snd (projr (convertNode demoEnv demoConverter demoState 1))) 5) \<and>
   extendedTypes (reflections (snd (projr (convertNode demoEnv demoConverter demoState 1))) 5) = Some [1, 0] \<and>
   toLowerCase (typeToString demoEnv 0) = ''component'' \<and>
   kind (reflections (snd (projr (convertNode demoEnv demoConverter demoState 1))) 5) = CoveoComponent"
proof -
  let ?X = "convertNode demoEnv demoConverter demoState 1"
  from demo_convertNode1 have eq: "?X = Inr (Some 5, snd (projr ?X))"
    using projr_eq[of ?X] by simp
  have decl: "isDeclarationReflection (reflections (snd (projr ?X)) 5)" by code_simp
  have ext: "extendedTypes (reflections (snd (projr ?X)) 5) = Some [1, 0]" by code_simp
  have low: "toLowerCase (typeToString demoEnv 0) = ''component''" by code_simp
  from ext low have named:
    "(\<exists>ts t. extendedTypes (reflections (snd (projr ?X)) 5) = Some ts \<and> t \<in> set ts \<and>
               toLowerCase (typeToString demoEnv t) = ''component'') \<or>
     (\<exists>impls i pre post. implementedTypes (reflections (snd (projr ?X)) 5) = Some impls \<and> i \<in> set impls \<and>
               toLowerCase (typeToString demoEnv i) = pre @ ''icomponentbindings'' @ post)"
    by auto
  from convertNode_component_kind[OF eq decl named] demo_convertNode1 decl ext low
  show ?thesis by simp
qed

subsection \<open>The tag that the pattern does not match\<close>

text \<open>
  When the handler has returned a reflection and the raw comment contains the text
  \<open>@notSupportedIn\<close> at a place where the pattern finds no feature name, convertNode
  throws.
\<close>

lemma convertNode_unmatched_tag:
  assumes "nd \<notin> set (nodeArrays s (visitStack s))"
    and "runHandler env cv (enteredState s nd) nd = Inr (Some r, s4)"
    and "getRawComment env nd = Inr (Some cm)"
    and "strIndexOf cm ''@notSupportedIn'' \<noteq> - 1"
    and "execTag cm = None"
  shows "convertNode env cv s nd = Inl TypeError"
proof -
  from assms(1) have "indexOf (nodeArrays s (visitStack s)) nd = - 1" by (rule indexOf_notin)
  with assms(2-5) show ?thesis
    by (simp add: convertNode_def Let_def postProcess_def applyNotSupportedIn_def)
qed

text \<open>
  C2 (the code does the opposite). Node 3 of the small conversion has a documentation
  comment that holds the tag \<open>@notSupportedIn\<close> and no feature name after it, and a
  handler that returns a reflection. The substring test of line 321 succeeds, the pattern
  of line 322 finds no match, and convertNode ends with the TypeError of reading
  \<open>tag[1]\<close> from null on line 332: there is no fallback.
\<close>

theorem convertNode_unmatched_tag_throws:
  "getRawComment demoEnv 3 = Inr (Some ''/** @notSupportedIn */'') \<and>
   strIndexOf ''/** @notSupportedIn */'' ''@notSupportedIn'' = 4 \<and>
   execTag ''/** @notSupportedIn */'' = None \<and>
   isl (convertNode demoEnv demoConverter demoState 3) \<and>
   projl (convertNode demoEnv demoConverter demoState 3) = TypeError"
  by code_simp

subsection \<open>compile\<close>

text \<open>
  C3. Once the source files are converted, compile asks the program for its diagnostics
  in the order options, syntactic, global, semantic. It returns the first list that is
  not empty, having asked for no later one, and the empty list when all four are empty.
  The log of calls shows which phases ran; nothing else of the state changes.
\<close>

theorem compile_diagnostic_phases:
  assumes "convertSourceFiles env cv (sourceFiles (program s)) s = Inr s1"
  shows
    "(optionsDiagnostics (program s) \<noteq> [] \<longrightarrow>
        compile env cv s =
          Inr (optionsDiagnostics (program s), s1\<lparr>calls := calls s1 @ [GetOptionsDiagnostics]\<rparr>)) \<and>
     (optionsDiagnostics (program s) = [] \<and> syntacticDiagnostics (program s) \<noteq> [] \<longrightarrow>
        compile env cv s =
          Inr (syntacticDiagnostics (program s),
               s1\<lparr>calls := calls s1 @ [GetOptionsDiagnostics, GetSyntacticDiagnostics]\<rparr>)) \<and>
     (optionsDiagnostics (program s) = [] \<and> syntacticDiagnostics (program s) = [] \<and>
      globalDiagnostics (program s) \<noteq> [] \<longrightarrow>
        compile env cv s =
          Inr (globalDiagnostics (program s),
               s1\<lparr>calls := calls s1 @
                  [GetOptionsDiagnostics, GetSyntacticDiagnostics, GetGlobalDiagnostics]\<rparr>)) \<and>
     (optionsDiagnostics (program s) = [] \<and> syntacticDiagnostics (program s) = [] \<and>
      globalDiagnostics (program s) = [] \<and> semanticDiagnostics (program s) \<noteq> [] \<longrightarrow>
        compile env cv s =
          Inr (semanticDiagnostics (program s),
               s1\<lparr>calls := calls s1 @
                  [GetOptionsDiagnostics, GetSyntacticDiagnostics, GetGlobalDiagnostics,
                   GetSemanticDiagnostics]\<rparr>)) \<and>
     (optionsDiagnostics (program s) = [] \<and> syntacticDiagnostics (program s) = [] \<and>
      globalDiagnostics (program s) = [] \<and> semanticDiagnostics (program s) = [] \<longrightarrow>
        compile env cv s =
          Inr ([],
               s1\<lparr>calls := calls s1 @
                  [GetOptionsDiagnostics, GetSyntacticDiagnostics, GetGlobalDiagnostics,
                   GetSemanticDiagnostics]\<rparr>))"
  using assms by (simp add: compile_def Let_def logCall_def)

lemma projr_Inr: "\<not> isl x \<Longrightarrow> x = Inr (projr x)"
  by (cases x) auto

text \<open>
  The program of the small conversion has the source files 1 and 2 and one diagnostic,
  3, which is a semantic one.
\<close>

theorem compile_diagnostic_phases_witness:
  "\<not> isl (convertSourceFiles demoEnv demoConverter (sourceFiles (program demoState)) demoState) \<and>
   optionsDiagnostics (program demoState) = [] \<and> syntacticDiagnostics (program demoState) = [] \<and>
   globalDiagnostics (program demoState) = [] \<and> semanticDiagnostics (program demoState) = [3] \<and>
   compile demoEnv demoConverter demoState =
     Inr ([3],
          (projr (convertSourceFiles demoEnv demoConverter (sourceFiles (program demoState)) demoState))
            \<lparr>calls := calls (projr (convertSourceFiles demoEnv demoConverter
                          (sourceFiles (program demoState)) demoState)) @
               [GetOptionsDiagnostics, GetSyntacticDiagnostics, GetGlobalDiagnostics,
                GetSemanticDiagnostics]\<rparr>)"
proof -
  let ?X = "convertSourceFiles demoEnv demoConverter (sourceFiles (program demoState)) demoState"
  have ok: "\<not> isl ?X" by code_simp
  then have eq: "?X = Inr (projr ?X)" by (rule projr_Inr)
  have d: "optionsDiagnostics (program demoState) = []" "syntacticDiagnostics (program demoState) = []"
    "globalDiagnostics (program demoState) = []" "semanticDiagnostics (program demoState) = [3]"
    by (simp_all add: demoState_def demoProgram_def)
  from compile_diagnostic_phases[OF eq] ok d show ?thesis by simp
qed

subsection \<open>convertType\<close>

lemma scanNodeConverters_log:
  assumes "scanNodeConverters env cs nd ty s = Inr (m, s')"
  shows "(m = None \<and> calls s' = calls s @ noMatchLog (\<lambda>c. SupportsNode c ty) cs) \<or>
         (\<exists>i result. i < length cs \<and> m = Some result \<and>
            calls s' = calls s @ firstMatchLog (\<lambda>c. SupportsNode c ty) (\<lambda>c. ConvertNode c ty) cs i result)"
  using assms
proof (induction cs arbitrary: s)
  case Nil
  then show ?case by (simp add: noMatchLog_def)
next
  case (Cons c cs)
  from Cons.prems obtain supp where sup: "tc_supportsNode (components env c) = Some supp"
    by (auto split: option.splits)
  with Cons.prems obtain matches s1
    where call1: "callMethod (\<lambda>st. supp st nd ty) (SupportsNode c ty) s = Inr (matches, s1)"
    by (auto split: sum.splits)
  then have log1: "calls s1 = calls s @ [SupportsNode c ty matches]"
    using callMethod_Inr[of "\<lambda>st. supp st nd ty" "SupportsNode c ty" s matches s1] by auto
  show ?case
  proof (cases matches)
    case True
    with Cons.prems sup call1 obtain conv where conv: "tc_convertNode (components env c) = Some conv"
      by (auto split: option.splits)
    with Cons.prems sup call1 True obtain result
      where call2: "callMethod (\<lambda>st. conv st nd ty) (ConvertNode c ty) s1 = Inr (result, s')"
        and m: "m = Some result"
      by (auto split: sum.splits)
    from call2 have "calls s' = calls s1 @ [ConvertNode c ty result]"
      using callMethod_Inr[of "\<lambda>st. conv st nd ty" "ConvertNode c ty" s1 result s'] by auto
    with log1 True have "calls s' =
        calls s @ firstMatchLog (\<lambda>c. SupportsNode c ty) (\<lambda>c. ConvertNode c ty) (c # cs) 0 result"
      by (simp add: firstMatchLog_def)
    with m show ?thesis by auto
  next
    case False
    with Cons.prems sup call1 have rest: "scanNodeConverters env cs nd ty s1 = Inr (m, s')"
      by simp
    from Cons.IH[OF rest] show ?thesis
    proof
      assume "m = None \<and> calls s' = calls s1 @ noMatchLog (\<lambda>c. SupportsNode c ty) cs"
      with log1 False show ?thesis by (simp add: noMatchLog_def)
    next
      assume "\<exists>i result. i < length cs \<and> m = Some result \<and>
            calls s' = calls s1 @ firstMatchLog (\<lambda>c. SupportsNode c ty) (\<lambda>c. ConvertNode c ty) cs i result"
      then obtain i result where i: "i < length cs" and m: "m = Some result"
        and log: "calls s' = calls s1 @ firstMatchLog (\<lambda>c. SupportsNode c ty) (\<lambda>c. ConvertNode c ty) cs i result"
        by blast
      from log log1 False have "calls s' =
          calls s @ firstMatchLog (\<lambda>c. SupportsNode c ty) (\<lambda>c. ConvertNode c ty) (c # cs) (Suc i) result"
        by (simp add: firstMatchLog_def)
      with i m show ?thesis by auto
    qed
  qed
qed

lemma scanTypeConverters_log:
  assumes "scanTypeConverters env cs t s = Inr (m, s')"
  shows "(m = None \<and> calls s' = calls s @ noMatchLog (\<lambda>c. SupportsType c t) cs) \<or>
         (\<exists>i result. i < length cs \<and> m = Some result \<and>
            calls s' = calls s @ firstMatchLog (\<lambda>c. SupportsType c t) (\<lambda>c. ConvertType c t) cs i result)"
  using assms
proof (induction cs arbitrary: s)
  case Nil
  then show ?case by (simp add: noMatchLog_def)
next
  case (Cons c cs)
  from Cons.prems obtain supp where sup: "tc_supportsType (components env c) = Some supp"
    by (auto split: option.splits)
  with Cons.prems obtain matches s1
    where call1: "callMethod (\<lambda>st. supp st t) (SupportsType c t) s = Inr (matches, s1)"
    by (auto split: sum.splits)
  then have log1: "calls s1 = calls s @ [SupportsType c t matches]"
    using callMethod_Inr[of "\<lambda>st. supp st t" "SupportsType c t" s matches s1] by auto
  show ?case
  proof (cases matches)
    case True
    with Cons.prems sup call1 obtain conv where conv: "tc_convertType (components env c) = Some conv"
      by (auto split: option.splits)
    with Cons.prems sup call1 True obtain result
      where call2: "callMethod (\<lambda>st. conv st t) (ConvertType c t) s1 = Inr (result, s')"
        and m: "m = Some result"
      by (auto split: sum.splits)
    from call2 have "calls s' = calls s1 @ [ConvertType c t result]"
      using callMethod_Inr[of "\<lambda>st. conv st t" "ConvertType c t" s1 result s'] by auto
    with log1 True have "calls s' =
        calls s @ firstMatchLog (\<lambda>c. SupportsType c t) (\<lambda>c. ConvertType c t) (c # cs) 0 result"
      by (simp add: firstMatchLog_def)
    with m show ?thesis by auto
  next
    case False
    with Cons.prems sup call1 have rest: "scanTypeConverters env cs t s1 = Inr (m, s')"
      by simp
    from Cons.IH[OF rest] show ?thesis
    proof
      assume "m = None \<and> calls s' = calls s1 @ noMatchLog (\<lambda>c. SupportsType c t) cs"
      with log1 False show ?thesis by (simp add: noMatchLog_def)
    next
      assume "\<exists>i result. i < length cs \<and> m = Some result \<and>
            calls s' = calls s1 @ firstMatchLog (\<lambda>c. SupportsType c t) (\<lambda>c. ConvertType c t) cs i result"
      then obtain i result where i: "i < length cs" and m: "m = Some result"
        and log: "calls s' = calls s1 @ firstMatchLog (\<lambda>c. SupportsType c t) (\<lambda>c. ConvertType c t) cs i result"
        by blast
      from log log1 False have "calls s' =
          calls s @ firstMatchLog (\<lambda>c. SupportsType c t) (\<lambda>c. ConvertType c t) (c # cs) (Suc i) result"
        by (simp add: firstMatchLog_def)
      with i m show ?thesis by auto
    qed
  qed
qed

lemma typeDriven_log:
  assumes "typeDriven env cv ty s = Inr (result, s')"
  shows "(ty = None \<and> result = None \<and> s' = s) \<or>
         (\<exists>t. ty = Some t \<and> result = None \<and>
            calls s' = calls s @ noMatchLog (\<lambda>c. SupportsType c t) (typeTypeConverters cv)) \<or>
         (\<exists>t j. ty = Some t \<and> j < length (typeTypeConverters cv) \<and>
            calls s' = calls s @ firstMatchLog (\<lambda>c. SupportsType c t) (\<lambda>c. ConvertType c t)
                                  (typeTypeConverters cv) j result)"
proof (cases ty)
  case None
  with assms show ?thesis by (simp add: typeDriven_def)
next
  case (Some t)
  with assms obtain m where scan: "scanTypeConverters env (typeTypeConverters cv) t s = Inr (m, s')"
    and m: "m = None \<and> result = None \<or> m = Some result"
    by (auto simp: typeDriven_def split: sum.splits option.splits)
  from scanTypeConverters_log[OF scan] m Some show ?thesis by auto
qed

text \<open>
  C4. What convertType does, read from the log of its calls. With a node: the type is
  the one given or else the one \<open>getTypeAtLocation\<close> returns for the node, asked for
  first; the node-driven converters are asked in the order of their list whether they
  support the node, and the first that does converts it: its result is returned and no
  other converter, node-driven or type-driven, is called. Only without a node, or when no
  node-driven converter supports it, are the type-driven converters asked in the same
  way, and only when there is a type. When nothing matches the result is absence.
\<close>

theorem convertType_first_match:
  assumes "convertType env cv s nodeArg typeArg = Inr (result, s')"
  shows
    "(\<exists>nd ty lookup.
        nodeArg = Some nd \<and>
        ty = (case typeArg of Some t \<Rightarrow> Some t | None \<Rightarrow> getTypeAtLocation env nd) \<and>
        lookup = (case typeArg of Some t \<Rightarrow> [] | None \<Rightarrow> [GetTypeAtLocation nd]) \<and>
        ((\<exists>i. i < length (typeNodeConverters cv) \<and>
              calls s' = calls s @ lookup @
                firstMatchLog (\<lambda>c. SupportsNode c ty) (\<lambda>c. ConvertNode c ty) (typeNodeConverters cv) i result) \<or>
         (ty = None \<and> result = None \<and>
              calls s' = calls s @ lookup @ noMatchLog (\<lambda>c. SupportsNode c ty) (typeNodeConverters cv)) \<or>
         (\<exists>t. ty = Some t \<and> result = None \<and>
              calls s' = calls s @ lookup @ noMatchLog (\<lambda>c. SupportsNode c ty) (typeNodeConverters cv) @
                noMatchLog (\<lambda>c. SupportsType c t) (typeTypeConverters cv)) \<or>
         (\<exists>t j. ty = Some t \<and> j < length (typeTypeConverters cv) \<and>
              calls s' = calls s @ lookup @ noMatchLog (\<lambda>c. SupportsNode c ty) (typeNodeConverters cv) @
                firstMatchLog (\<lambda>c. SupportsType c t) (\<lambda>c. ConvertType c t) (typeTypeConverters cv) j result))) \<or>
     (nodeArg = None \<and>
        ((typeArg = None \<and> result = None \<and> calls s' = calls s) \<or>
         (\<exists>t. typeArg = Some t \<and> result = None \<and>
              calls s' = calls s @ noMatchLog (\<lambda>c. SupportsType c t) (typeTypeConverters cv)) \<or>
         (\<exists>t j. typeArg = Some t \<and> j < length (typeTypeConverters cv) \<and>
              calls s' = calls s @
                firstMatchLog (\<lambda>c. SupportsType c t) (\<lambda>c. ConvertType c t) (typeTypeConverters cv) j result)))"
proof (cases nodeArg)
  case None
  with assms have "typeDriven env cv typeArg s = Inr (result, s')"
    by (simp add: convertType_def)
  from typeDriven_log[OF this] None show ?thesis by auto
next
  case (Some nd)
  define ty where "ty = (case typeArg of Some t \<Rightarrow> Some t | None \<Rightarrow> getTypeAtLocation env nd)"
  define lookup where "lookup = (case typeArg of Some t \<Rightarrow> [] | None \<Rightarrow> [GetTypeAtLocation nd])"
  define s1 where "s1 = (case typeArg of Some t \<Rightarrow> s | None \<Rightarrow> logCall (GetTypeAtLocation nd) s)"
  have log1: "calls s1 = calls s @ lookup"
    by (cases typeArg) (simp_all add: s1_def lookup_def logCall_def)
  from assms Some obtain m s2
    where scan: "scanNodeConverters env (typeNodeConverters cv) nd ty s1 = Inr (m, s2)"
      and after: "(m = Some result \<and> s' = s2) \<or> (m = None \<and> typeDriven env cv ty s2 = Inr (result, s'))"
    by (auto simp: convertType_def Let_def ty_def s1_def split: sum.splits option.splits)
  from after have
    "(\<exists>i. i < length (typeNodeConverters cv) \<and>
              calls s' = calls s @ lookup @
                firstMatchLog (\<lambda>c. SupportsNode c ty) (\<lambda>c. ConvertNode c ty) (typeNodeConverters cv) i result) \<or>
         (ty = None \<and> result = None \<and>
              calls s' = calls s @ lookup @ noMatchLog (\<lambda>c. SupportsNode c ty) (typeNodeConverters cv)) \<or>
         (\<exists>t. ty = Some t \<and> result = None \<and>
              calls s' = calls s @ lookup @ noMatchLog (\<lambda>c. SupportsNode c ty) (typeNodeConverters cv) @
                noMatchLog (\<lambda>c. SupportsType c t) (typeTypeConverters cv)) \<or>
         (\<exists>t j. ty = Some t \<and> j < length (typeTypeConverters cv) \<and>
              calls s' = calls s @ lookup @ noMatchLog (\<lambda>c. SupportsNode c ty) (typeNodeConverters cv) @
                firstMatchLog (\<lambda>c. SupportsType c t) (\<lambda>c. ConvertType c t) (typeTypeConverters cv) j result)"
  proof
    assume a: "m = Some result \<and> s' = s2"
    with scanNodeConverters_log[OF scan] log1 show ?thesis by auto
  next
    assume a: "m = None \<and> typeDriven env cv ty s2 = Inr (result, s')"
    with scanNodeConverters_log[OF scan] log1
    have log2: "calls s2 = calls s @ lookup @ noMatchLog (\<lambda>c. SupportsNode c ty) (typeNodeConverters cv)"
      by auto
    from a have "typeDriven env cv ty s2 = Inr (result, s')" by simp
    from typeDriven_log[OF this] log2 show ?thesis by auto
  qed
  with Some show ?thesis unfolding ty_def lookup_def by blast
qed

text \<open>
  Node 1 of the small conversion, with no type given: the checker returns type 20, the
  node-driven converter 10 does not support the node, and 11 does and returns 42.
\<close>

theorem convertType_first_match_witness:
  "\<not> isl (convertType demoEnv demoConverter demoState (Some 1) None) \<and>
   fst (projr (convertType demoEnv demoConverter demoState (Some 1) None)) = Some 42 \<and>
   typeNodeConverters demoConverter = [10, 11] \<and>
   calls (snd (projr (convertType demoEnv demoConverter demoState (Some 1) None))) =
     calls demoState @ [GetTypeAtLocation 1] @
       firstMatchLog (\<lambda>c. SupportsNode c (Some 20)) (\<lambda>c. ConvertNode c (Some 20)) [10, 11] 1 (Some 42)"
proof -
  let ?X = "convertType demoEnv demoConverter demoState (Some 1) None"
  have ok: "\<not> isl ?X" by code_simp
  then have eq: "?X = Inr (fst (projr ?X), snd (projr ?X))" by (rule projr_eq)
  have res: "fst (projr ?X) = Some 42" by code_simp
  have tnc: "typeNodeConverters demoConverter = [10, 11]" by (simp add: demoConverter_eq)
  have log: "calls (snd (projr ?X)) =
      [GetTypeAtLocation 1, SupportsNode 10 (Some 20) False, SupportsNode 11 (Some 20) True,
       ConvertNode 11 (Some 20) (Some 42)]"
    by code_simp
  have start: "calls demoState = []" by (simp add: demoState_def)
  have "calls (snd (projr ?X)) =
     calls demoState @ [GetTypeAtLocation 1] @
       firstMatchLog (\<lambda>c. SupportsNode c (Some 20)) (\<lambda>c. ConvertNode c (Some 20)) [10, 11] 1 (Some 42)"
    using log start by (simp add: firstMatchLog_def)
  with convertType_first_match[OF eq] ok res tnc show ?thesis by blast
qed

subsection \<open>convert\<close>

lemma callTrigger_Inr:
  assumes "callTrigger env nm arg s = Inr s'"
  shows "calls s' = calls s @ [Trigger nm arg]"
  using assms by (auto simp: callTrigger_def split: sum.splits)

lemma runHandler_log:
  assumes "runHandler env cv s nd = Inr (r, s')"
  shows "\<exists>evs. calls s' = calls s @ evs \<and> list_all isHandlerCall evs"
proof (cases "map_of (nodeConverters cv) (nodeKind env nd)")
  case None
  with assms have "s' = s" by (simp add: runHandler_def)
  then have "calls s' = calls s @ [] \<and> list_all isHandlerCall []" by simp
  then show ?thesis by blast
next
  case (Some c)
  with assms have "calls s' = calls s @ [NodeConvert c nd r]"
    using callMethod_Inr[of "\<lambda>st. nc_convert (components env c) st nd" "NodeConvert c nd" s r s']
    by (auto simp: runHandler_def)
  then have "calls s' = calls s @ [NodeConvert c nd r] \<and> list_all isHandlerCall [NodeConvert c nd r]"
    by simp
  then show ?thesis by blast
qed

lemma convertNode_log:
  assumes "convertNode env cv s nd = Inr (r, s')"
  shows "\<exists>evs. calls s' = calls s @ evs \<and> list_all isHandlerCall evs"
proof -
  from convertNode_cases[OF assms]
  consider (guard) "s' = s"
    | (run) s4 where "runHandler env cv (enteredState s nd) nd = Inr (r, s4)"
        "postProcess env nd r (s4\<lparr>visitStack := visitStack s\<rparr>) = Inr (r, s')"
    by blast
  then show ?thesis
  proof cases
    case guard
    then have "calls s' = calls s @ [] \<and> list_all isHandlerCall []" by simp
    then show ?thesis by blast
  next
    case run
    from run(2) have "reflectionsOnly (s4\<lparr>visitStack := visitStack s\<rparr>) s'"
      using postProcess_Inr by blast
    then have "calls s' = calls s4" using reflectionsOnly_fields(1) by fastforce
    moreover from runHandler_log[OF run(1)] obtain evs
      where "calls s4 = calls (enteredState s nd) @ evs" and "list_all isHandlerCall evs"
      by blast
    moreover have "calls (enteredState s nd) = calls s" by (simp add: enteredState_eq)
    ultimately have "calls s' = calls s @ evs \<and> list_all isHandlerCall evs" by simp
    then show ?thesis by blast
  qed
qed

lemma convertSourceFiles_log:
  assumes "convertSourceFiles env cv files s = Inr s'"
  shows "\<exists>evs. calls s' = calls s @ evs \<and> list_all isHandlerCall evs"
  using assms
proof (induction files arbitrary: s)
  case Nil
  then have "calls s' = calls s @ [] \<and> list_all isHandlerCall []" by simp
  then show ?case by blast
next
  case (Cons f files)
  define s1 where "s1 =
        (if \<not> isAbsolute env (sourceFileName s f)
         then s\<lparr>sourceFileName := (sourceFileName s)
                  (f := normalizePath env (normalizeSlashes env
                     (pathJoin env (currentDirectory env) (sourceFileName s f))))\<rparr>
         else s)"
  have c1: "calls s1 = calls s" by (simp add: s1_def)
  from Cons.prems obtain r s2 where one: "convertNode env cv s1 f = Inr (r, s2)"
    and rest: "convertSourceFiles env cv files s2 = Inr s'"
    by (auto simp: Let_def s1_def split: sum.splits)
  from convertNode_log[OF one] obtain evs1
    where e1: "calls s2 = calls s1 @ evs1" "list_all isHandlerCall evs1" by blast
  from Cons.IH[OF rest] obtain evs2
    where e2: "calls s' = calls s2 @ evs2" "list_all isHandlerCall evs2" by blast
  from c1 e1 e2 have "calls s' = calls s @ (evs1 @ evs2) \<and> list_all isHandlerCall (evs1 @ evs2)"
    by simp
  then show ?case by blast
qed

lemma compile_log:
  assumes "compile env cv s = Inr (ds, s')"
  shows "\<exists>trav diag. calls s' = calls s @ trav @ GetOptionsDiagnostics # diag \<and>
           list_all isHandlerCall trav \<and> list_all isDiagnosticCall diag"
proof -
  from assms obtain s1 where trav: "convertSourceFiles env cv (sourceFiles (program s)) s = Inr s1"
    by (auto simp: compile_def Let_def split: sum.splits)
  from convertSourceFiles_log[OF trav] obtain evs
    where e: "calls s1 = calls s @ evs" "list_all isHandlerCall evs" by blast
  from assms trav have "\<exists>diag. calls s' = calls s1 @ GetOptionsDiagnostics # diag \<and>
      list_all isDiagnosticCall diag"
    by (auto simp: compile_def Let_def logCall_def split: if_splits)
  then obtain diag where "calls s' = calls s1 @ GetOptionsDiagnostics # diag"
    and "list_all isDiagnosticCall diag" by blast
  with e have "calls s' = calls s @ evs @ GetOptionsDiagnostics # diag \<and>
           list_all isHandlerCall evs \<and> list_all isDiagnosticCall diag" by simp
  then show ?thesis by blast
qed

lemma resolveLoop_log:
  assumes "resolveLoop env ids s = Inr s'"
  shows "\<exists>evs. calls s' = calls s @ evs \<and> list_all isResolveTrigger evs"
  using assms
proof (induction ids arbitrary: s)
  case Nil
  then have "calls s' = calls s @ [] \<and> list_all isResolveTrigger []" by simp
  then show ?case by blast
next
  case (Cons i ids)
  show ?case
  proof (cases "map_of (projectReflections s) i")
    case None
    with Cons.prems have "resolveLoop env ids s = Inr s'" by simp
    then show ?thesis by (rule Cons.IH)
  next
    case (Some p)
    obtain own r where p: "p = (own, r)" by (cases p)
    show ?thesis
    proof (cases own)
      case False
      with Cons.prems Some p have "resolveLoop env ids s = Inr s'" by simp
      then show ?thesis by (rule Cons.IH)
    next
      case True
      with Cons.prems Some p obtain s1
        where t: "callTrigger env EVENT_RESOLVE (Some r) s = Inr s1"
          and rest: "resolveLoop env ids s1 = Inr s'"
        by (auto split: sum.splits)
      from callTrigger_Inr[OF t] have c1: "calls s1 = calls s @ [Trigger EVENT_RESOLVE (Some r)]" .
      from Cons.IH[OF rest] obtain evs
        where "calls s' = calls s1 @ evs" "list_all isResolveTrigger evs" by blast
      with c1 have "calls s' = calls s @ (Trigger EVENT_RESOLVE (Some r) # evs) \<and>
          list_all isResolveTrigger (Trigger EVENT_RESOLVE (Some r) # evs)" by simp
      then show ?thesis by blast
    qed
  qed
qed

lemma resolve_log:
  assumes "resolve env s = Inr (proj, s')"
  shows "\<exists>evs. calls s' = calls s @ Trigger EVENT_RESOLVE_BEGIN None # evs @ [Trigger EVENT_RESOLVE_END None]
           \<and> list_all isResolveTrigger evs"
proof -
  from assms obtain s1 s2
    where b: "callTrigger env EVENT_RESOLVE_BEGIN None s = Inr s1"
      and l: "resolveLoop env (map fst (projectReflections s1)) s1 = Inr s2"
      and e: "callTrigger env EVENT_RESOLVE_END None s2 = Inr s'"
    by (auto simp: resolve_def Let_def split: sum.splits)
  from resolveLoop_log[OF l] obtain evs
    where "calls s2 = calls s1 @ evs" "list_all isResolveTrigger evs" by blast
  with callTrigger_Inr[OF b] callTrigger_Inr[OF e]
  have "calls s' = calls s @ Trigger EVENT_RESOLVE_BEGIN None # evs @ [Trigger EVENT_RESOLVE_END None]
           \<and> list_all isResolveTrigger evs" by simp
  then show ?thesis by blast
qed

text \<open>The loop of convert writes the array \<open>a\<close> and nothing else.\<close>

lemma normalizeLoop_eq:
  assumes "i \<le> c" and "c \<le> length (strArrays s a)"
  shows "normalizeLoop env a i c s =
     s\<lparr>strArrays := (strArrays s)
          (a := take i (strArrays s a) @
                map (\<lambda>p. normalizePath env (normalizeSlashes env p)) (take (c - i) (drop i (strArrays s a))) @
                drop c (strArrays s a))\<rparr>"
  using assms
proof (induction env a i c s rule: normalizeLoop.induct)
  case (1 env a i c s)
  let ?f = "\<lambda>p. normalizePath env (normalizeSlashes env p)"
  let ?xs = "strArrays s a"
  show ?case
  proof (cases "i < c")
    case False
    with "1.prems" have "i = c" by simp
    then have "take i ?xs @ map ?f (take (c - i) (drop i ?xs)) @ drop c ?xs = ?xs" by simp
    moreover from False have "normalizeLoop env a i c s = s"
      by (subst normalizeLoop.simps) simp
    ultimately show ?thesis by simp
  next
    case True
    let ?s2 = "s\<lparr>strArrays := (strArrays s)(a := ?xs[i := ?f (?xs ! i)])\<rparr>"
    from True "1.prems" have ilen: "i < length ?xs" by simp
    have xs2: "strArrays ?s2 a = ?xs[i := ?f (?xs ! i)]" by simp
    from True "1.prems" have "Suc i \<le> c" and "c \<le> length (strArrays ?s2 a)" by simp_all
    with True have ih: "normalizeLoop env a (Suc i) c ?s2 =
       ?s2\<lparr>strArrays := (strArrays ?s2)
          (a := take (Suc i) (strArrays ?s2 a) @
                map ?f (take (c - Suc i) (drop (Suc i) (strArrays ?s2 a))) @
                drop c (strArrays ?s2 a))\<rparr>"
      using "1.IH" by blast
    from ilen have t: "take (Suc i) (?xs[i := ?f (?xs ! i)]) = take i ?xs @ [?f (?xs ! i)]"
      by (simp add: take_Suc_conv_app_nth)
    have d: "drop (Suc i) (?xs[i := ?f (?xs ! i)]) = drop (Suc i) ?xs" by simp
    from True have dc: "drop c (?xs[i := ?f (?xs ! i)]) = drop c ?xs" by simp
    from ilen True have m: "map ?f (take (c - i) (drop i ?xs)) =
        ?f (?xs ! i) # map ?f (take (c - Suc i) (drop (Suc i) ?xs))"
      by (simp add: Cons_nth_drop_Suc[symmetric] Suc_diff_Suc[symmetric])
    have lists: "take (Suc i) (strArrays ?s2 a) @
                map ?f (take (c - Suc i) (drop (Suc i) (strArrays ?s2 a))) @
                drop c (strArrays ?s2 a) =
          take i ?xs @ map ?f (take (c - i) (drop i ?xs)) @ drop c ?xs"
      unfolding xs2 t d dc m by simp
    have same: "?s2\<lparr>strArrays := (strArrays ?s2)(a := ys)\<rparr> = s\<lparr>strArrays := (strArrays s)(a := ys)\<rparr>"
      for ys by simp
    from True have "normalizeLoop env a i c s = normalizeLoop env a (Suc i) c ?s2"
      by (subst normalizeLoop.simps) simp
    also have "\<dots> = ?s2\<lparr>strArrays := (strArrays ?s2)
          (a := take i ?xs @ map ?f (take (c - i) (drop i ?xs)) @ drop c ?xs)\<rparr>"
      unfolding ih lists ..
    also have "\<dots> = s\<lparr>strArrays := (strArrays s)
          (a := take i ?xs @ map ?f (take (c - i) (drop i ?xs)) @ drop c ?xs)\<rparr>"
      by (rule same)
    finally show ?thesis .
  qed
qed

lemma normalizeLoop_all:
  "normalizeLoop env a 0 (length (strArrays s a)) s =
     s\<lparr>strArrays := (strArrays s)
          (a := map (\<lambda>p. normalizePath env (normalizeSlashes env p)) (strArrays s a))\<rparr>"
  using normalizeLoop_eq[of 0 "length (strArrays s a)" s a env] by simp

lemma convert_steps:
  assumes "convert env cv a s = Inr (res, s')"
  shows "\<exists>s3 s4 s5 s6.
      calls s3 = calls s @
        [CreateProgram a (map (\<lambda>p. normalizePath env (normalizeSlashes env p)) (strArrays s a)),
         NewContext a] \<and>
      callTrigger env EVENT_BEGIN None s3 = Inr s4 \<and>
      compile env cv s4 = Inr (errors res, s5) \<and>
      resolve env s5 = Inr (projectResult res, s6) \<and>
      callTrigger env EVENT_END None s6 = Inr s'"
proof -
  define s1 where "s1 = normalizeLoop env a 0 (length (strArrays s a)) s"
  define s3 where "s3 = newContext a (createProgram env (strArrays s1 a))
                          (logCall (CreateProgram a (strArrays s1 a)) s1)"
  have s1: "s1 = s\<lparr>strArrays := (strArrays s)
          (a := map (\<lambda>p. normalizePath env (normalizeSlashes env p)) (strArrays s a))\<rparr>"
    unfolding s1_def by (rule normalizeLoop_all)
  then have "calls s1 = calls s"
    and "strArrays s1 a = map (\<lambda>p. normalizePath env (normalizeSlashes env p)) (strArrays s a)"
    by simp_all
  then have c3: "calls s3 = calls s @
        [CreateProgram a (map (\<lambda>p. normalizePath env (normalizeSlashes env p)) (strArrays s a)),
         NewContext a]"
    by (simp add: s3_def newContext_def logCall_def)
  from assms obtain s4 errs s5 proj s6
    where "callTrigger env EVENT_BEGIN None s3 = Inr s4"
      and "compile env cv s4 = Inr (errs, s5)"
      and "resolve env s5 = Inr (proj, s6)"
      and "callTrigger env EVENT_END None s6 = Inr s'"
      and "res = \<lparr>errors = errs, projectResult = proj\<rparr>"
    unfolding convert_def Let_def s3_def s1_def
    by (auto split: sum.splits)
  with c3 show ?thesis by auto
qed

lemma callTrigger_fire: "callTrigger env nm arg s = fireEvents env [(nm, arg)] s"
  by (simp add: callTrigger_def split: sum.splits)

lemma fireEvents_append:
  "fireEvents env (xs @ ys) s =
     (case fireEvents env xs s of Inl e \<Rightarrow> Inl e | Inr s1 \<Rightarrow> fireEvents env ys s1)"
  by (induction env xs s rule: fireEvents.induct) (auto split: sum.splits)

lemma fireEvents_calls:
  "fireEvents env evs s = Inr s' \<Longrightarrow> calls s' = calls s @ map (\<lambda>(nm, arg). Trigger nm arg) evs"
  by (induction env evs s rule: fireEvents.induct) (auto split: sum.splits)

lemma fireEvents_Cons:
  assumes "fireEvents env [(nm, arg)] s = Inr s1" and "fireEvents env others s1 = Inr s'"
  shows "fireEvents env ((nm, arg) # others) s = Inr s'"
  using assms by (auto split: sum.splits)

lemma resolveLoop_fire_ex:
  assumes "resolveLoop env ids s = Inr s'"
  shows "\<exists>refs. fireEvents env (map (\<lambda>r. (EVENT_RESOLVE, Some r)) refs) s = Inr s'"
  using assms
proof (induction ids arbitrary: s)
  case Nil
  then have "fireEvents env (map (\<lambda>r. (EVENT_RESOLVE, Some r)) []) s = Inr s'" by simp
  then show ?case by blast
next
  case (Cons i ids)
  show ?case
  proof (cases "map_of (projectReflections s) i")
    case None
    with Cons.prems have "resolveLoop env ids s = Inr s'" by simp
    then show ?thesis by (rule Cons.IH)
  next
    case (Some p)
    obtain own r where p: "p = (own, r)" by (cases p)
    show ?thesis
    proof (cases own)
      case False
      with Cons.prems Some p have "resolveLoop env ids s = Inr s'" by simp
      then show ?thesis by (rule Cons.IH)
    next
      case True
      with Cons.prems Some p obtain s1
        where t: "callTrigger env EVENT_RESOLVE (Some r) s = Inr s1"
          and rest: "resolveLoop env ids s1 = Inr s'"
        by (auto split: sum.splits)
      from t have t': "fireEvents env [(EVENT_RESOLVE, Some r)] s = Inr s1"
        by (simp only: callTrigger_fire)
      from Cons.IH[OF rest] obtain refs
        where "fireEvents env (map (\<lambda>r. (EVENT_RESOLVE, Some r)) refs) s1 = Inr s'" by blast
      with t' have "fireEvents env (map (\<lambda>r. (EVENT_RESOLVE, Some r)) (r # refs)) s = Inr s'"
        using fireEvents_Cons[of env EVENT_RESOLVE "Some r" s s1] by simp
      then show ?thesis by blast
    qed
  qed
qed

text \<open>
  When the listeners of the resolve event leave the registry of the project as it is, the
  loop of resolve fires the event for the reflections registered when it starts.
\<close>

lemma resolveLoop_fire_visited:
  assumes ni: "\<forall>r st st'. trigger env EVENT_RESOLVE (Some r) st = Inr st' \<longrightarrow>
                 projectReflections st' = projectReflections st"
  shows "resolveLoop env ids s =
           fireEvents env (map (\<lambda>r. (EVENT_RESOLVE, Some r)) (visited (projectReflections s) ids)) s"
proof (induction ids arbitrary: s)
  case Nil
  show ?case by (simp add: visited_def)
next
  case (Cons i ids)
  have step: "visited (projectReflections s) (i # ids) =
      (case map_of (projectReflections s) i of
         None \<Rightarrow> []
       | Some (own, r) \<Rightarrow> if own then [r] else []) @ visited (projectReflections s) ids"
    by (simp add: visited_def)
  show ?case
  proof (cases "map_of (projectReflections s) i")
    case None
    with step Cons.IH[of s] show ?thesis by simp
  next
    case (Some p)
    obtain own r where p: "p = (own, r)" by (cases p)
    show ?thesis
    proof (cases own)
      case False
      with Some p step Cons.IH[of s] show ?thesis by simp
    next
      case True
      with Some p step have v: "visited (projectReflections s) (i # ids) =
          r # visited (projectReflections s) ids" by simp
      show ?thesis
      proof (cases "trigger env EVENT_RESOLVE (Some r) s")
        case (Inl e)
        with Some p True v show ?thesis by (simp add: callTrigger_def)
      next
        case (Inr s0)
        let ?s1 = "s0\<lparr>calls := calls s @ [Trigger EVENT_RESOLVE (Some r)]\<rparr>"
        from ni Inr have "projectReflections ?s1 = projectReflections s" by simp
        with Cons.IH[of ?s1] have "resolveLoop env ids ?s1 =
            fireEvents env (map (\<lambda>r. (EVENT_RESOLVE, Some r)) (visited (projectReflections s) ids)) ?s1"
          by simp
        with Some p True v Inr show ?thesis by (simp add: callTrigger_def)
      qed
    qed
  qed
qed

lemma visited_registered:
  assumes "\<forall>(i, own, r) \<in> set xs. map_of regs i = Some (own, r)"
  shows "visited regs (map fst xs) = ownReflections xs"
  using assms
  by (induction xs) (auto simp: visited_def ownReflections_def)

lemma visited_own:
  assumes "distinct (map fst regs)"
  shows "visited regs (map fst regs) = ownReflections regs"
proof (rule visited_registered)
  from assms show "\<forall>(i, own, r) \<in> set regs. map_of regs i = Some (own, r)"
    by (auto intro: map_of_is_SomeI)
qed

lemma resolve_fire:
  assumes "resolve env s = Inr (proj, s')"
  shows "\<exists>r1 refs.
      fireEvents env [(EVENT_RESOLVE_BEGIN, None)] s = Inr r1 \<and> proj = project r1 \<and>
      fireEvents env (map (\<lambda>r. (EVENT_RESOLVE, Some r)) refs @ [(EVENT_RESOLVE_END, None)]) r1 = Inr s' \<and>
      (distinct (map fst (projectReflections r1)) \<and>
       (\<forall>r st st'. trigger env EVENT_RESOLVE (Some r) st = Inr st' \<longrightarrow>
                 projectReflections st' = projectReflections st)
       \<longrightarrow> refs = ownReflections (projectReflections r1))"
proof -
  from assms obtain r1 s2
    where b: "callTrigger env EVENT_RESOLVE_BEGIN None s = Inr r1"
      and l: "resolveLoop env (map fst (projectReflections r1)) r1 = Inr s2"
      and e: "callTrigger env EVENT_RESOLVE_END None s2 = Inr s'"
      and p: "proj = project r1"
    by (auto simp: resolve_def Let_def split: sum.splits)
  from b have b': "fireEvents env [(EVENT_RESOLVE_BEGIN, None)] s = Inr r1"
    by (simp only: callTrigger_fire)
  from e have e': "fireEvents env [(EVENT_RESOLVE_END, None)] s2 = Inr s'"
    by (simp only: callTrigger_fire)
  let ?quiet = "distinct (map fst (projectReflections r1)) \<and>
       (\<forall>r st st'. trigger env EVENT_RESOLVE (Some r) st = Inr st' \<longrightarrow>
                 projectReflections st' = projectReflections st)"
  have "\<exists>refs. fireEvents env (map (\<lambda>r. (EVENT_RESOLVE, Some r)) refs) r1 = Inr s2 \<and>
          (?quiet \<longrightarrow> refs = ownReflections (projectReflections r1))"
  proof (cases ?quiet)
    case True
    then have "resolveLoop env (map fst (projectReflections r1)) r1 =
        fireEvents env (map (\<lambda>r. (EVENT_RESOLVE, Some r))
          (visited (projectReflections r1) (map fst (projectReflections r1)))) r1"
      using resolveLoop_fire_visited by blast
    with True l have "fireEvents env (map (\<lambda>r. (EVENT_RESOLVE, Some r))
          (ownReflections (projectReflections r1))) r1 = Inr s2"
      by (simp add: visited_own)
    then show ?thesis by blast
  next
    case False
    from resolveLoop_fire_ex[OF l] obtain refs
      where "fireEvents env (map (\<lambda>r. (EVENT_RESOLVE, Some r)) refs) r1 = Inr s2" by blast
    with False show ?thesis by blast
  qed
  then obtain refs
    where f: "fireEvents env (map (\<lambda>r. (EVENT_RESOLVE, Some r)) refs) r1 = Inr s2"
      and q: "?quiet \<longrightarrow> refs = ownReflections (projectReflections r1)"
    by blast
  from f e' have "fireEvents env (map (\<lambda>r. (EVENT_RESOLVE, Some r)) refs @ [(EVENT_RESOLVE_END, None)]) r1 = Inr s'"
    by (simp add: fireEvents_append)
  with b' p q show ?thesis by blast
qed

text \<open>What convert does, step by step, from the state in which the begin event fires.\<close>

lemma convert_chain:
  assumes "convert env cv a s = Inr (res, s')"
  shows "\<exists>s4 s5 s6.
      fireEvents env [(EVENT_BEGIN, None)]
        (newContext a
           (createProgram env (map (\<lambda>p. normalizePath env (normalizeSlashes env p)) (strArrays s a)))
           (s\<lparr>strArrays := (strArrays s)
                 (a := map (\<lambda>p. normalizePath env (normalizeSlashes env p)) (strArrays s a)),
              calls := calls s @
                 [CreateProgram a (map (\<lambda>p. normalizePath env (normalizeSlashes env p)) (strArrays s a))]\<rparr>))
        = Inr s4 \<and>
      compile env cv s4 = Inr (errors res, s5) \<and>
      resolve env s5 = Inr (projectResult res, s6) \<and>
      fireEvents env [(EVENT_END, None)] s6 = Inr s'"
proof -
  let ?files = "map (\<lambda>p. normalizePath env (normalizeSlashes env p)) (strArrays s a)"
  define s1 where "s1 = normalizeLoop env a 0 (length (strArrays s a)) s"
  define s3 where "s3 = newContext a (createProgram env (strArrays s1 a))
                          (logCall (CreateProgram a (strArrays s1 a)) s1)"
  have s1: "s1 = s\<lparr>strArrays := (strArrays s)(a := ?files)\<rparr>"
    unfolding s1_def by (rule normalizeLoop_all)
  then have files: "strArrays s1 a = ?files" by simp
  have s3: "s3 = newContext a (createProgram env ?files)
           (s\<lparr>strArrays := (strArrays s)(a := ?files),
              calls := calls s @ [CreateProgram a ?files]\<rparr>)"
    unfolding s3_def files by (simp add: s1 logCall_def)
  from assms obtain s4 errs s5 proj s6
    where "callTrigger env EVENT_BEGIN None s3 = Inr s4"
      and "compile env cv s4 = Inr (errs, s5)"
      and "resolve env s5 = Inr (proj, s6)"
      and "callTrigger env EVENT_END None s6 = Inr s'"
      and "res = \<lparr>errors = errs, projectResult = proj\<rparr>"
    unfolding convert_def Let_def s3_def s1_def
    by (auto split: sum.splits)
  then show ?thesis unfolding s3 callTrigger_fire by auto
qed

text \<open>
  C8. When convert returns: the listeners of the begin event ran on the state in which
  the program and the Context had just been created; compile ran on the state they left,
  and its diagnostics, empty or not, are the errors of the result; the resolve pass ran
  on the state compile left, firing its begin event, the resolve event for a list of
  reflections (the own reflections of the project, when the listeners of the resolve
  event leave the registry alone) and its end event, and the project read after its begin
  event is the project of the result; the listeners of the end event ran last, and the
  state they left is the state convert leaves. The log of calls shows the same order.
\<close>

theorem convert_lifecycle:
  assumes "convert env cv a s = Inr (res, s')"
  shows "\<exists>files s3 s4 s5 r1 refs s6 trav diag.
      files = map (\<lambda>p. normalizePath env (normalizeSlashes env p)) (strArrays s a) \<and>
      s3 = newContext a (createProgram env files)
             (s\<lparr>strArrays := (strArrays s)(a := files),
                calls := calls s @ [CreateProgram a files]\<rparr>) \<and>
      fireEvents env [(EVENT_BEGIN, None)] s3 = Inr s4 \<and>
      compile env cv s4 = Inr (errors res, s5) \<and>
      resolve env s5 = Inr (projectResult res, s6) \<and>
      fireEvents env [(EVENT_RESOLVE_BEGIN, None)] s5 = Inr r1 \<and>
      projectResult res = project r1 \<and>
      fireEvents env (map (\<lambda>r. (EVENT_RESOLVE, Some r)) refs @ [(EVENT_RESOLVE_END, None)]) r1
        = Inr s6 \<and>
      (distinct (map fst (projectReflections r1)) \<and>
       (\<forall>r st st'. trigger env EVENT_RESOLVE (Some r) st = Inr st' \<longrightarrow>
                 projectReflections st' = projectReflections st)
       \<longrightarrow> refs = ownReflections (projectReflections r1)) \<and>
      fireEvents env [(EVENT_END, None)] s6 = Inr s' \<and>
      calls s' = calls s @ [CreateProgram a files, NewContext a, Trigger EVENT_BEGIN None] @
                   trav @ GetOptionsDiagnostics # diag @
                   Trigger EVENT_RESOLVE_BEGIN None # map (\<lambda>r. Trigger EVENT_RESOLVE (Some r)) refs @
                   [Trigger EVENT_RESOLVE_END None, Trigger EVENT_END None] \<and>
      list_all isHandlerCall trav \<and> list_all isDiagnosticCall diag"
proof -
  define files where "files = map (\<lambda>p. normalizePath env (normalizeSlashes env p)) (strArrays s a)"
  define s3 where "s3 = newContext a (createProgram env files)
             (s\<lparr>strArrays := (strArrays s)(a := files),
                calls := calls s @ [CreateProgram a files]\<rparr>)"
  from convert_chain[OF assms] obtain s4 s5 s6
    where b: "fireEvents env [(EVENT_BEGIN, None)] s3 = Inr s4"
      and c: "compile env cv s4 = Inr (errors res, s5)"
      and r: "resolve env s5 = Inr (projectResult res, s6)"
      and e: "fireEvents env [(EVENT_END, None)] s6 = Inr s'"
    unfolding s3_def files_def by blast
  from resolve_fire[OF r] obtain r1 refs
    where rb: "fireEvents env [(EVENT_RESOLVE_BEGIN, None)] s5 = Inr r1"
      and p: "projectResult res = project r1"
      and rl: "fireEvents env (map (\<lambda>r. (EVENT_RESOLVE, Some r)) refs @ [(EVENT_RESOLVE_END, None)]) r1
                 = Inr s6"
      and q: "distinct (map fst (projectReflections r1)) \<and>
       (\<forall>r st st'. trigger env EVENT_RESOLVE (Some r) st = Inr st' \<longrightarrow>
                 projectReflections st' = projectReflections st)
       \<longrightarrow> refs = ownReflections (projectReflections r1)"
    by blast
  from compile_log[OF c] obtain trav diag
    where c5: "calls s5 = calls s4 @ trav @ GetOptionsDiagnostics # diag"
      and t: "list_all isHandlerCall trav" and d: "list_all isDiagnosticCall diag"
    by blast
  have c3: "calls s3 = calls s @ [CreateProgram a files, NewContext a]"
    by (simp add: s3_def newContext_def logCall_def)
  have m: "map (\<lambda>(nm, arg). Trigger nm arg) (map (\<lambda>r. (EVENT_RESOLVE, Some r)) refs) =
      map (\<lambda>r. Trigger EVENT_RESOLVE (Some r)) refs"
    by simp
  from fireEvents_calls[OF b] fireEvents_calls[OF rb] fireEvents_calls[OF rl]
    fireEvents_calls[OF e] c3 c5 m
  have log: "calls s' = calls s @ [CreateProgram a files, NewContext a, Trigger EVENT_BEGIN None] @
                   trav @ GetOptionsDiagnostics # diag @
                   Trigger EVENT_RESOLVE_BEGIN None # map (\<lambda>r. Trigger EVENT_RESOLVE (Some r)) refs @
                   [Trigger EVENT_RESOLVE_END None, Trigger EVENT_END None]"
    by simp
  from files_def s3_def b c r rb p rl q e log t d show ?thesis by blast
qed

lemma demo_convert:
  "\<not> isl (convert demoEnv demoConverter 0 demoState)"
  by code_simp

lemma demo_files:
  "map (\<lambda>p. normalizePath demoEnv (normalizeSlashes demoEnv p)) (strArrays demoState 0) =
     [''src/a.ts'', ''src/a.ts'']"
  by code_simp

lemma demo_trigger: "trigger demoEnv nm arg st = Inr st"
  by (simp add: demoEnv_def demoEnvWith_def)

lemma demo_fire_one:
  "fireEvents demoEnv [(nm, arg)] st = Inr st' \<Longrightarrow> st' = st\<lparr>calls := calls st @ [Trigger nm arg]\<rparr>"
  by (simp add: demo_trigger)

text \<open>
  The small conversion: compile returns the semantic diagnostic 3, and the resolve pass
  runs all the same, on the reflection 5 that the handler of node 1 registered. The
  listeners of the small conversion change nothing.
\<close>

theorem convert_lifecycle_witness:
  "\<not> isl (convert demoEnv demoConverter 0 demoState) \<and>
   errors (fst (projr (convert demoEnv demoConverter 0 demoState))) = [3] \<and>
   calls (snd (projr (convert demoEnv demoConverter 0 demoState))) =
     [CreateProgram 0 [''src/a.ts'', ''src/a.ts''], NewContext 0,
      Trigger ''begin'' None, NodeConvert 1 1 (Some 5), NodeConvert 2 2 None,
      GetOptionsDiagnostics, GetSyntacticDiagnostics, GetGlobalDiagnostics,
      GetSemanticDiagnostics, Trigger ''resolveBegin'' None,
      Trigger ''resolveReflection'' (Some 5), Trigger ''resolveEnd'' None,
      Trigger ''end'' None] \<and>
   (\<exists>s3 s4 s5 r1 s6.
      s3 = newContext 0 (createProgram demoEnv [''src/a.ts'', ''src/a.ts''])
             (demoState\<lparr>strArrays := (strArrays demoState)(0 := [''src/a.ts'', ''src/a.ts'']),
                calls := calls demoState @ [CreateProgram 0 [''src/a.ts'', ''src/a.ts'']]\<rparr>) \<and>
      fireEvents demoEnv [(EVENT_BEGIN, None)] s3 = Inr s4 \<and>
      compile demoEnv demoConverter s4 = Inr ([3], s5) \<and>
      resolve demoEnv s5 =
        Inr (projectResult (fst (projr (convert demoEnv demoConverter 0 demoState))), s6) \<and>
      fireEvents demoEnv [(EVENT_RESOLVE_BEGIN, None)] s5 = Inr r1 \<and>
      projectResult (fst (projr (convert demoEnv demoConverter 0 demoState))) = project r1 \<and>
      projectReflections r1 = [(5, True, 5)] \<and>
      fireEvents demoEnv (map (\<lambda>r. (EVENT_RESOLVE, Some r)) [5] @ [(EVENT_RESOLVE_END, None)]) r1
        = Inr s6 \<and>
      fireEvents demoEnv [(EVENT_END, None)] s6 = Inr (snd (projr (convert demoEnv demoConverter 0 demoState))))"
proof -
  let ?X = "convert demoEnv demoConverter 0 demoState"
  let ?S3 = "newContext 0 (createProgram demoEnv [''src/a.ts'', ''src/a.ts''])
             (demoState\<lparr>strArrays := (strArrays demoState)(0 := [''src/a.ts'', ''src/a.ts'']),
                calls := calls demoState @ [CreateProgram 0 [''src/a.ts'', ''src/a.ts'']]\<rparr>)"
  let ?S4 = "?S3\<lparr>calls := calls ?S3 @ [Trigger EVENT_BEGIN None]\<rparr>"
  have eq: "?X = Inr (fst (projr ?X), snd (projr ?X))"
    using demo_convert by (rule projr_eq)
  have errs: "errors (fst (projr ?X)) = [3]" by code_simp
  have log: "calls (snd (projr ?X)) =
     [CreateProgram 0 [''src/a.ts'', ''src/a.ts''], NewContext 0,
      Trigger ''begin'' None, NodeConvert 1 1 (Some 5), NodeConvert 2 2 None,
      GetOptionsDiagnostics, GetSyntacticDiagnostics, GetGlobalDiagnostics,
      GetSemanticDiagnostics, Trigger ''resolveBegin'' None,
      Trigger ''resolveReflection'' (Some 5), Trigger ''resolveEnd'' None,
      Trigger ''end'' None]"
    by code_simp
  have regs: "projectReflections (snd (projr (compile demoEnv demoConverter ?S4))) = [(5, True, 5)]"
    by code_simp
  from convert_lifecycle[OF eq] obtain files s3 s4 s5 r1 refs s6
    where f: "files = map (\<lambda>p. normalizePath demoEnv (normalizeSlashes demoEnv p)) (strArrays demoState 0)"
      and s3: "s3 = newContext 0 (createProgram demoEnv files)
             (demoState\<lparr>strArrays := (strArrays demoState)(0 := files),
                calls := calls demoState @ [CreateProgram 0 files]\<rparr>)"
      and b: "fireEvents demoEnv [(EVENT_BEGIN, None)] s3 = Inr s4"
      and c: "compile demoEnv demoConverter s4 = Inr (errors (fst (projr ?X)), s5)"
      and r: "resolve demoEnv s5 = Inr (projectResult (fst (projr ?X)), s6)"
      and rb: "fireEvents demoEnv [(EVENT_RESOLVE_BEGIN, None)] s5 = Inr r1"
      and p: "projectResult (fst (projr ?X)) = project r1"
      and rl: "fireEvents demoEnv (map (\<lambda>r. (EVENT_RESOLVE, Some r)) refs @ [(EVENT_RESOLVE_END, None)]) r1
                 = Inr s6"
      and q: "distinct (map fst (projectReflections r1)) \<and>
       (\<forall>r st st'. trigger demoEnv EVENT_RESOLVE (Some r) st = Inr st' \<longrightarrow>
                 projectReflections st' = projectReflections st)
       \<longrightarrow> refs = ownReflections (projectReflections r1)"
      and e: "fireEvents demoEnv [(EVENT_END, None)] s6 = Inr (snd (projr ?X))"
    by blast
  from f have files: "files = [''src/a.ts'', ''src/a.ts'']" by (simp only: demo_files)
  from s3 files have s3': "s3 = ?S3" by simp
  from demo_fire_one[OF b] s3' have s4: "s4 = ?S4" by simp
  from c s4 have "s5 = snd (projr (compile demoEnv demoConverter ?S4))" by simp
  with regs have regs5: "projectReflections s5 = [(5, True, 5)]" by simp
  from demo_fire_one[OF rb] regs5 have regs1: "projectReflections r1 = [(5, True, 5)]" by simp
  have quiet: "\<forall>r st st'. trigger demoEnv EVENT_RESOLVE (Some r) st = Inr st' \<longrightarrow>
                 projectReflections st' = projectReflections st"
    by (simp add: demo_trigger)
  from q regs1 quiet have refs: "refs = [5]" by (simp add: ownReflections_def)
  from demo_convert errs log s3' b c r rb p regs1 rl refs e show ?thesis by auto
qed

text \<open>
  C1, as the code has it. convert normalizes the paths and removes no duplicate: when it
  returns, the program was created, and then the Context, from the array of the caller
  holding, in the order of the input and one for one, the normalized form of every input
  path.
\<close>

theorem convert_normalizes_paths:
  assumes "convert env cv a s = Inr (res, s')"
  shows "\<exists>others.
      calls s' = calls s @
        CreateProgram a (map (\<lambda>p. normalizePath env (normalizeSlashes env p)) (strArrays s a)) #
        NewContext a # others"
proof -
  from convert_steps[OF assms] obtain s3 s4 s5 s6
    where c3: "calls s3 = calls s @
        [CreateProgram a (map (\<lambda>p. normalizePath env (normalizeSlashes env p)) (strArrays s a)),
         NewContext a]"
      and b: "callTrigger env EVENT_BEGIN None s3 = Inr s4"
      and c: "compile env cv s4 = Inr (errors res, s5)"
      and r: "resolve env s5 = Inr (projectResult res, s6)"
      and e: "callTrigger env EVENT_END None s6 = Inr s'"
    by blast
  from compile_log[OF c] obtain evs5 where c5: "calls s5 = calls s4 @ evs5" by blast
  from resolve_log[OF r] obtain evs6 where c6: "calls s6 = calls s5 @ evs6" by blast
  from c3 callTrigger_Inr[OF b] c5 c6 callTrigger_Inr[OF e]
  have "calls s' = calls s @
        CreateProgram a (map (\<lambda>p. normalizePath env (normalizeSlashes env p)) (strArrays s a)) #
        NewContext a # (Trigger EVENT_BEGIN None # evs5 @ evs6 @ [Trigger EVENT_END None])"
    by simp
  then show ?thesis by blast
qed

text \<open>
  The array 0 of the small conversion holds one file under two spellings. Both normalize
  to the same path, and the program is created from a list that holds it twice.
\<close>

theorem convert_normalizes_paths_witness:
  "\<not> isl (convert demoEnv demoConverter 0 demoState) \<and>
   strArrays demoState 0 = [''src'' @ [CHR 0x5C] @ ''a.ts'', ''src/a.ts''] \<and>
   map (\<lambda>p. normalizePath demoEnv (normalizeSlashes demoEnv p)) (strArrays demoState 0) =
     [''src/a.ts'', ''src/a.ts''] \<and>
   (\<exists>others.
      calls (snd (projr (convert demoEnv demoConverter 0 demoState))) = calls demoState @
        CreateProgram 0 (map (\<lambda>p. normalizePath demoEnv (normalizeSlashes demoEnv p))
                           (strArrays demoState 0)) #
        NewContext 0 # others)"
proof -
  let ?X = "convert demoEnv demoConverter 0 demoState"
  have eq: "?X = Inr (fst (projr ?X), snd (projr ?X))"
    using demo_convert by (rule projr_eq)
  have a: "strArrays demoState 0 = [''src'' @ [CHR 0x5C] @ ''a.ts'', ''src/a.ts'']"
    by (simp add: demoState_def)
  have b: "map (\<lambda>p. normalizePath demoEnv (normalizeSlashes demoEnv p)) (strArrays demoState 0) =
     [''src/a.ts'', ''src/a.ts'']"
    by code_simp
  from convert_normalizes_paths[OF eq] demo_convert a b show ?thesis by blast
qed

text \<open>
  C1 as the specification states it fails: after the loop of convert the file list of
  the small conversion holds the path \<open>src/a.ts\<close> twice.
\<close>

theorem convert_keeps_duplicates:
  "strArrays (normalizeLoop demoEnv 0 0 (length (strArrays demoState 0)) demoState) 0 =
     [''src/a.ts'', ''src/a.ts''] \<and>
   \<not> distinct (strArrays (normalizeLoop demoEnv 0 0 (length (strArrays demoState 0)) demoState) 0) \<and>
   hd (calls (snd (projr (convert demoEnv demoConverter 0 demoState)))) =
     CreateProgram 0 [''src/a.ts'', ''src/a.ts'']"
  by code_simp

text \<open>Steps that leave the arrays of file names alone.\<close>

lemma keepsFiles_refl: "keepsFiles s s"
  by (simp add: keepsFiles_def)

lemma keepsFiles_trans: "keepsFiles s s1 \<Longrightarrow> keepsFiles s1 s2 \<Longrightarrow> keepsFiles s s2"
  by (simp add: keepsFiles_def)

lemma keepsFiles_reflectionsOnly:
  assumes "reflectionsOnly s s'"
  shows "keepsFiles s s'"
proof -
  from assms have eq: "s' = s\<lparr>reflections := reflections s'\<rparr>"
    by (simp add: reflectionsOnly_def)
  have "strArrays s' = strArrays s" by (subst eq) simp
  moreover have "fileNames s' = fileNames s" by (subst eq) simp
  ultimately show ?thesis by (simp add: keepsFiles_def)
qed

lemma fireEvents_keepsFiles:
  assumes "\<forall>nm arg st st'. trigger env nm arg st = Inr st' \<longrightarrow> keepsFiles st st'"
    and "fireEvents env evs s = Inr s'"
  shows "keepsFiles s s'"
  using assms(2)
proof (induction evs arbitrary: s)
  case Nil
  then show ?case by (simp add: keepsFiles_refl)
next
  case (Cons ev others)
  obtain nm arg where ev: "ev = (nm, arg)" by (cases ev)
  from Cons.prems ev obtain s1 where t: "trigger env nm arg s = Inr s1"
    and rest: "fireEvents env others (s1\<lparr>calls := calls s @ [Trigger nm arg]\<rparr>) = Inr s'"
    by (auto split: sum.splits)
  from assms(1) t have "keepsFiles s s1" by blast
  then have k1: "keepsFiles s (s1\<lparr>calls := calls s @ [Trigger nm arg]\<rparr>)"
    by (simp add: keepsFiles_def)
  from Cons.IH[OF rest] have "keepsFiles (s1\<lparr>calls := calls s @ [Trigger nm arg]\<rparr>) s'" .
  with k1 show ?case by (rule keepsFiles_trans)
qed

lemma convertNode_keepsFiles:
  assumes h: "\<forall>k c st n r st'. map_of (nodeConverters cv) k = Some c \<and>
                nc_convert (components env c) st n = Inr (r, st') \<longrightarrow> keepsFiles st st'"
    and ret: "convertNode env cv s nd = Inr (result, s')"
  shows "keepsFiles s s'"
proof -
  from convertNode_cases[OF ret]
  consider (guard) "s' = s"
    | (run) s4 where "runHandler env cv (enteredState s nd) nd = Inr (result, s4)"
        "postProcess env nd result (s4\<lparr>visitStack := visitStack s\<rparr>) = Inr (result, s')"
    by blast
  then show ?thesis
  proof cases
    case guard
    then show ?thesis by (simp add: keepsFiles_refl)
  next
    case run
    have k3: "keepsFiles s (enteredState s nd)"
      by (simp add: keepsFiles_def enteredState_eq)
    have k4: "keepsFiles (enteredState s nd) s4"
    proof (cases "map_of (nodeConverters cv) (nodeKind env nd)")
      case None
      with run(1) show ?thesis by (simp add: runHandler_def keepsFiles_refl)
    next
      case (Some c)
      with run(1) obtain s0
        where c0: "nc_convert (components env c) (enteredState s nd) nd = Inr (result, s0)"
          and s4: "s4 = s0\<lparr>calls := calls (enteredState s nd) @ [NodeConvert c nd result]\<rparr>"
        using callMethod_Inr[of "\<lambda>st. nc_convert (components env c) st nd" "NodeConvert c nd"
            "enteredState s nd" result s4]
        by (auto simp: runHandler_def)
      from h Some c0 have "keepsFiles (enteredState s nd) s0" by blast
      with s4 show ?thesis by (simp add: keepsFiles_def)
    qed
    from run(2) have "reflectionsOnly (s4\<lparr>visitStack := visitStack s\<rparr>) s'"
      using postProcess_Inr by blast
    then have "keepsFiles (s4\<lparr>visitStack := visitStack s\<rparr>) s'"
      by (rule keepsFiles_reflectionsOnly)
    then have k5: "keepsFiles s4 s'" by (simp add: keepsFiles_def)
    from k3 k4 k5 show ?thesis by (blast intro: keepsFiles_trans)
  qed
qed

lemma convertSourceFiles_keepsFiles:
  assumes h: "\<forall>k c st n r st'. map_of (nodeConverters cv) k = Some c \<and>
                nc_convert (components env c) st n = Inr (r, st') \<longrightarrow> keepsFiles st st'"
    and ret: "convertSourceFiles env cv files s = Inr s'"
  shows "keepsFiles s s'"
  using ret
proof (induction files arbitrary: s)
  case Nil
  then show ?case by (simp add: keepsFiles_refl)
next
  case (Cons f files)
  define s1 where "s1 =
        (if \<not> isAbsolute env (sourceFileName s f)
         then s\<lparr>sourceFileName := (sourceFileName s)
                  (f := normalizePath env (normalizeSlashes env
                     (pathJoin env (currentDirectory env) (sourceFileName s f))))\<rparr>
         else s)"
  have k1: "keepsFiles s s1" by (simp add: s1_def keepsFiles_def)
  from Cons.prems obtain r s2 where one: "convertNode env cv s1 f = Inr (r, s2)"
    and rest: "convertSourceFiles env cv files s2 = Inr s'"
    by (auto simp: Let_def s1_def split: sum.splits)
  from h one have k2: "keepsFiles s1 s2" by (rule convertNode_keepsFiles)
  from Cons.IH[OF rest] have k3: "keepsFiles s2 s'" .
  from k1 k2 k3 show ?case by (blast intro: keepsFiles_trans)
qed

lemma compile_keepsFiles:
  assumes h: "\<forall>k c st n r st'. map_of (nodeConverters cv) k = Some c \<and>
                nc_convert (components env c) st n = Inr (r, st') \<longrightarrow> keepsFiles st st'"
    and ret: "compile env cv s = Inr (ds, s')"
  shows "keepsFiles s s'"
proof -
  from ret obtain s1 where trav: "convertSourceFiles env cv (sourceFiles (program s)) s = Inr s1"
    by (auto simp: compile_def Let_def split: sum.splits)
  from h trav have k1: "keepsFiles s s1" by (rule convertSourceFiles_keepsFiles)
  from ret trav have "keepsFiles s1 s'"
    by (auto simp: compile_def Let_def logCall_def keepsFiles_def split: if_splits)
  with k1 show ?thesis by (rule keepsFiles_trans)
qed

text \<open>
  C10. convert overwrites the array of the caller, element by element, with the
  normalized paths, and no other array. The program is created from that array as the
  loop left it, the Context is made with the same array, and that is the state in which
  the listeners of the begin event run, and from which the compile phase, the resolve
  pass and the end event lead to the state convert returns. When neither the listeners nor the handlers
  registered for a node kind write the arrays of file names or the reference the Context
  holds, the array of the caller holds the normalized paths, and not the paths it was
  given, when convert returns.
\<close>

theorem convert_mutates_argument:
  assumes "convert env cv a s = Inr (res, s')"
  shows "\<exists>files s3 s4 s5 s6.
      files = map (\<lambda>p. normalizePath env (normalizeSlashes env p)) (strArrays s a) \<and>
      s3 = newContext a (createProgram env files)
             (s\<lparr>strArrays := (strArrays s)(a := files),
                calls := calls s @ [CreateProgram a files]\<rparr>) \<and>
      strArrays s3 = (strArrays s)(a := files) \<and>
      fileNames s3 = a \<and>
      program s3 = createProgram env (strArrays s3 a) \<and>
      calls s3 = calls s @ [CreateProgram a files, NewContext a] \<and>
      fireEvents env [(EVENT_BEGIN, None)] s3 = Inr s4 \<and>
      compile env cv s4 = Inr (errors res, s5) \<and>
      resolve env s5 = Inr (projectResult res, s6) \<and>
      fireEvents env [(EVENT_END, None)] s6 = Inr s' \<and>
      ((\<forall>nm arg st st'. trigger env nm arg st = Inr st' \<longrightarrow> keepsFiles st st') \<and>
       (\<forall>k c st n r st'. map_of (nodeConverters cv) k = Some c \<and>
            nc_convert (components env c) st n = Inr (r, st') \<longrightarrow> keepsFiles st st')
       \<longrightarrow> strArrays s' = (strArrays s)(a := files) \<and> fileNames s' = a)"
proof -
  define files where "files = map (\<lambda>p. normalizePath env (normalizeSlashes env p)) (strArrays s a)"
  define s3 where "s3 = newContext a (createProgram env files)
             (s\<lparr>strArrays := (strArrays s)(a := files),
                calls := calls s @ [CreateProgram a files]\<rparr>)"
  from convert_chain[OF assms] have "\<exists>s4 s5 s6.
      fireEvents env [(EVENT_BEGIN, None)] s3 = Inr s4 \<and>
      compile env cv s4 = Inr (errors res, s5) \<and>
      resolve env s5 = Inr (projectResult res, s6) \<and>
      fireEvents env [(EVENT_END, None)] s6 = Inr s'"
    unfolding s3_def files_def .
  then obtain s4 s5 s6
    where b: "fireEvents env [(EVENT_BEGIN, None)] s3 = Inr s4"
      and c: "compile env cv s4 = Inr (errors res, s5)"
      and r: "resolve env s5 = Inr (projectResult res, s6)"
      and e: "fireEvents env [(EVENT_END, None)] s6 = Inr s'"
    by (elim exE conjE)
  have st: "strArrays s3 = (strArrays s)(a := files)" and fn: "fileNames s3 = a"
    and pr: "program s3 = createProgram env (strArrays s3 a)"
    and lg: "calls s3 = calls s @ [CreateProgram a files, NewContext a]"
    by (simp_all add: s3_def newContext_def logCall_def)
  have kept: "strArrays s' = (strArrays s)(a := files) \<and> fileNames s' = a"
    if h1: "\<forall>nm arg st st'. trigger env nm arg st = Inr st' \<longrightarrow> keepsFiles st st'"
    and h2: "\<forall>k c st n r st'. map_of (nodeConverters cv) k = Some c \<and>
            nc_convert (components env c) st n = Inr (r, st') \<longrightarrow> keepsFiles st st'"
  proof -
    from h1 b have k4: "keepsFiles s3 s4" by (rule fireEvents_keepsFiles)
    from h2 c have k5: "keepsFiles s4 s5" by (rule compile_keepsFiles)
    from resolve_fire[OF r] obtain r1 refs
      where rb: "fireEvents env [(EVENT_RESOLVE_BEGIN, None)] s5 = Inr r1"
        and rl: "fireEvents env (map (\<lambda>r. (EVENT_RESOLVE, Some r)) refs @ [(EVENT_RESOLVE_END, None)]) r1
                   = Inr s6"
      by blast
    from h1 rb have k6: "keepsFiles s5 r1" by (rule fireEvents_keepsFiles)
    from h1 rl have k7: "keepsFiles r1 s6" by (rule fireEvents_keepsFiles)
    from h1 e have k8: "keepsFiles s6 s'" by (rule fireEvents_keepsFiles)
    from k4 k5 have "keepsFiles s3 s5" by (rule keepsFiles_trans)
    then have "keepsFiles s3 r1" using k6 by (rule keepsFiles_trans)
    then have "keepsFiles s3 s6" using k7 by (rule keepsFiles_trans)
    then have "keepsFiles s3 s'" using k8 by (rule keepsFiles_trans)
    with st fn show ?thesis by (simp add: keepsFiles_def)
  qed
  show ?thesis
  proof (intro exI conjI)
    show "files = map (\<lambda>p. normalizePath env (normalizeSlashes env p)) (strArrays s a)"
      by (rule files_def)
    show "s3 = newContext a (createProgram env files)
             (s\<lparr>strArrays := (strArrays s)(a := files),
                calls := calls s @ [CreateProgram a files]\<rparr>)"
      by (rule s3_def)
    show "strArrays s3 = (strArrays s)(a := files)" by (rule st)
    show "fileNames s3 = a" by (rule fn)
    show "program s3 = createProgram env (strArrays s3 a)" by (rule pr)
    show "calls s3 = calls s @ [CreateProgram a files, NewContext a]" by (rule lg)
    show "fireEvents env [(EVENT_BEGIN, None)] s3 = Inr s4" by (rule b)
    show "compile env cv s4 = Inr (errors res, s5)" by (rule c)
    show "resolve env s5 = Inr (projectResult res, s6)" by (rule r)
    show "fireEvents env [(EVENT_END, None)] s6 = Inr s'" by (rule e)
    show "(\<forall>nm arg st st'. trigger env nm arg st = Inr st' \<longrightarrow> keepsFiles st st') \<and>
       (\<forall>k c st n r st'. map_of (nodeConverters cv) k = Some c \<and>
            nc_convert (components env c) st n = Inr (r, st') \<longrightarrow> keepsFiles st st')
       \<longrightarrow> strArrays s' = (strArrays s)(a := files) \<and> fileNames s' = a"
      using kept by (intro impI) (elim conjE)
  qed
qed

lemma demo_handlers_keepFiles:
  "\<forall>k c st n r st'. map_of (nodeConverters demoConverter) k = Some c \<and>
      nc_convert (components demoEnv c) st n = Inr (r, st') \<longrightarrow> keepsFiles st st'"
proof (intro allI impI, elim conjE)
  fix k c :: nat and st st' :: "unit state" and n :: node and r :: "rref option"
  assume reg: "map_of (nodeConverters demoConverter) k = Some c"
    and run: "nc_convert (components demoEnv c) st n = Inr (r, st')"
  have base: "\<forall>k c st n r st'. map_of (nodeConverters initialize) k = Some c \<and>
      nc_convert (components demoBaseEnv c) st n = Inr (r, st') \<longrightarrow> keepsFiles st st'"
    by (simp add: initialize_def)
  from reg have "c = 1 \<or> c = 2 \<or> c = 3"
    by (auto simp: demoConverter_eq split: if_splits)
  then show "keepsFiles st st'"
  proof (elim disjE)
    assume "c = 1"
    with run show ?thesis
      by (auto simp: demoEnv_def demoEnvWith_def demoComponents_def emptyComponent_def keepsFiles_def)
  next
    assume "c = 2"
    with run have "convertNode demoBaseEnv initialize st n = Inr (r, st')"
      by (simp add: demoEnv_def demoEnvWith_def demoComponents_def emptyComponent_def)
    with base show ?thesis by (rule convertNode_keepsFiles)
  next
    assume "c = 3"
    with run obtain child where "convertNode demoBaseEnv initialize st 8 = Inr (child, st')"
      by (auto simp: demoEnv_def demoEnvWith_def demoComponents_def emptyComponent_def
          split: sum.splits)
    with base show ?thesis by (rule convertNode_keepsFiles)
  qed
qed

text \<open>
  The first element of the array 0 of the small conversion is spelled with a backslash
  before the call; when convert returns the array holds the normalized paths, the other
  arrays are as they were, and the Context holds the array 0.
\<close>

theorem convert_mutates_argument_witness:
  "\<not> isl (convert demoEnv demoConverter 0 demoState) \<and>
   strArrays demoState 0 = [''src'' @ [CHR 0x5C] @ ''a.ts'', ''src/a.ts''] \<and>
   strArrays (snd (projr (convert demoEnv demoConverter 0 demoState))) =
     (strArrays demoState)(0 := [''src/a.ts'', ''src/a.ts'']) \<and>
   strArrays (snd (projr (convert demoEnv demoConverter 0 demoState))) 0 = [''src/a.ts'', ''src/a.ts''] \<and>
   fileNames (snd (projr (convert demoEnv demoConverter 0 demoState))) = 0 \<and>
   (\<exists>s3 s4 s5 s6.
      s3 = newContext 0 (createProgram demoEnv [''src/a.ts'', ''src/a.ts''])
             (demoState\<lparr>strArrays := (strArrays demoState)(0 := [''src/a.ts'', ''src/a.ts'']),
                calls := calls demoState @ [CreateProgram 0 [''src/a.ts'', ''src/a.ts'']]\<rparr>) \<and>
      strArrays s3 = (strArrays demoState)(0 := [''src/a.ts'', ''src/a.ts'']) \<and>
      fileNames s3 = 0 \<and>
      program s3 = createProgram demoEnv (strArrays s3 0) \<and>
      calls s3 = [CreateProgram 0 [''src/a.ts'', ''src/a.ts''], NewContext 0] \<and>
      fireEvents demoEnv [(EVENT_BEGIN, None)] s3 = Inr s4 \<and>
      compile demoEnv demoConverter s4 =
        Inr (errors (fst (projr (convert demoEnv demoConverter 0 demoState))), s5) \<and>
      resolve demoEnv s5 =
        Inr (projectResult (fst (projr (convert demoEnv demoConverter 0 demoState))), s6) \<and>
      fireEvents demoEnv [(EVENT_END, None)] s6 =
        Inr (snd (projr (convert demoEnv demoConverter 0 demoState))))"
proof -
  let ?X = "convert demoEnv demoConverter 0 demoState"
  have eq: "?X = Inr (fst (projr ?X), snd (projr ?X))"
    using demo_convert by (rule projr_eq)
  have before: "strArrays demoState 0 = [''src'' @ [CHR 0x5C] @ ''a.ts'', ''src/a.ts'']"
    by (simp add: demoState_def)
  have listeners: "\<forall>nm arg st st'. trigger demoEnv nm arg st = Inr st' \<longrightarrow> keepsFiles st st'"
    by (simp add: demo_trigger keepsFiles_def)
  from convert_mutates_argument[OF eq] obtain files s3 s4 s5 s6
    where f: "files = map (\<lambda>p. normalizePath demoEnv (normalizeSlashes demoEnv p)) (strArrays demoState 0)"
      and s3: "s3 = newContext 0 (createProgram demoEnv files)
             (demoState\<lparr>strArrays := (strArrays demoState)(0 := files),
                calls := calls demoState @ [CreateProgram 0 files]\<rparr>)"
      and st: "strArrays s3 = (strArrays demoState)(0 := files)"
      and fn: "fileNames s3 = 0"
      and pr: "program s3 = createProgram demoEnv (strArrays s3 0)"
      and lg: "calls s3 = calls demoState @ [CreateProgram 0 files, NewContext 0]"
      and b: "fireEvents demoEnv [(EVENT_BEGIN, None)] s3 = Inr s4"
      and c: "compile demoEnv demoConverter s4 = Inr (errors (fst (projr ?X)), s5)"
      and r: "resolve demoEnv s5 = Inr (projectResult (fst (projr ?X)), s6)"
      and e: "fireEvents demoEnv [(EVENT_END, None)] s6 = Inr (snd (projr ?X))"
      and kept: "(\<forall>nm arg st st'. trigger demoEnv nm arg st = Inr st' \<longrightarrow> keepsFiles st st') \<and>
       (\<forall>k c st n r st'. map_of (nodeConverters demoConverter) k = Some c \<and>
            nc_convert (components demoEnv c) st n = Inr (r, st') \<longrightarrow> keepsFiles st st')
       \<longrightarrow> strArrays (snd (projr ?X)) = (strArrays demoState)(0 := files) \<and>
           fileNames (snd (projr ?X)) = 0"
    by (elim exE conjE)
  from f have files: "files = [''src/a.ts'', ''src/a.ts'']" by (simp only: demo_files)
  from listeners demo_handlers_keepFiles
  have "strArrays (snd (projr ?X)) = (strArrays demoState)(0 := files) \<and>
        fileNames (snd (projr ?X)) = 0"
    by (intro kept[rule_format] conjI)
  then have after: "strArrays (snd (projr ?X)) = (strArrays demoState)(0 := [''src/a.ts'', ''src/a.ts''])"
    and ctx: "fileNames (snd (projr ?X)) = 0"
    by (simp_all only: files)
  from after have after0: "strArrays (snd (projr ?X)) 0 = [''src/a.ts'', ''src/a.ts'']"
    by (simp only: fun_upd_same)
  have "\<exists>s3 s4 s5 s6.
      s3 = newContext 0 (createProgram demoEnv [''src/a.ts'', ''src/a.ts''])
             (demoState\<lparr>strArrays := (strArrays demoState)(0 := [''src/a.ts'', ''src/a.ts'']),
                calls := calls demoState @ [CreateProgram 0 [''src/a.ts'', ''src/a.ts'']]\<rparr>) \<and>
      strArrays s3 = (strArrays demoState)(0 := [''src/a.ts'', ''src/a.ts'']) \<and>
      fileNames s3 = 0 \<and>
      program s3 = createProgram demoEnv (strArrays s3 0) \<and>
      calls s3 = [CreateProgram 0 [''src/a.ts'', ''src/a.ts''], NewContext 0] \<and>
      fireEvents demoEnv [(EVENT_BEGIN, None)] s3 = Inr s4 \<and>
      compile demoEnv demoConverter s4 = Inr (errors (fst (projr ?X)), s5) \<and>
      resolve demoEnv s5 = Inr (projectResult (fst (projr ?X)), s6) \<and>
      fireEvents demoEnv [(EVENT_END, None)] s6 = Inr (snd (projr ?X))"
  proof (intro exI conjI)
    show "s3 = newContext 0 (createProgram demoEnv [''src/a.ts'', ''src/a.ts''])
             (demoState\<lparr>strArrays := (strArrays demoState)(0 := [''src/a.ts'', ''src/a.ts'']),
                calls := calls demoState @ [CreateProgram 0 [''src/a.ts'', ''src/a.ts'']]\<rparr>)"
      using s3 by (simp only: files)
    show "strArrays s3 = (strArrays demoState)(0 := [''src/a.ts'', ''src/a.ts''])"
      using st by (simp only: files)
    show "fileNames s3 = 0" by (rule fn)
    show "program s3 = createProgram demoEnv (strArrays s3 0)" by (rule pr)
    show "calls s3 = [CreateProgram 0 [''src/a.ts'', ''src/a.ts''], NewContext 0]"
      using lg by (simp add: files demoState_def)
    show "fireEvents demoEnv [(EVENT_BEGIN, None)] s3 = Inr s4" by (rule b)
    show "compile demoEnv demoConverter s4 = Inr (errors (fst (projr ?X)), s5)" by (rule c)
    show "resolve demoEnv s5 = Inr (projectResult (fst (projr ?X)), s6)" by (rule r)
    show "fireEvents demoEnv [(EVENT_END, None)] s6 = Inr (snd (projr ?X))" by (rule e)
  qed
  with demo_convert before after after0 ctx show ?thesis by (intro conjI)
qed

end
